theory Spec2Isabelle
  imports Main "HOL-Library.Sublist"
begin

section \<open>Go values used by proxy/match.go\<close>

text \<open>
  A Go \<^verbatim>\<open>string\<close> is a sequence of bytes; it is modelled as \<^typ>\<open>string\<close>
  (a list of 8-bit characters). A Go function either returns its results or panics
  (an index out of range is a run-time panic); both outcomes are values of \<open>go\<close>.
\<close>

datatype 'a go = Panic | Return 'a

text \<open>\<^verbatim>\<open>strings.HasPrefix(s, prefix)\<close>: \<^verbatim>\<open>len(s) >= len(prefix) && s[:len(prefix)] == prefix\<close>.\<close>

definition HasPrefix :: "string \<Rightarrow> string \<Rightarrow> bool" where
  "HasPrefix s p = (length p \<le> length s \<and> take (length p) s = p)"

text \<open>\<^verbatim>\<open>strings.TrimPrefix(s, prefix)\<close>: \<^verbatim>\<open>s\<close> without the leading \<^verbatim>\<open>prefix\<close>, or
  \<^verbatim>\<open>s\<close> itself when it does not start with \<^verbatim>\<open>prefix\<close>.\<close>

definition TrimPrefix :: "string \<Rightarrow> string \<Rightarrow> string" where
  "TrimPrefix s p = (if HasPrefix s p then drop (length p) s else s)"

text \<open>\<^verbatim>\<open>strings.HasSuffix(s, suffix)\<close>.\<close>

definition HasSuffix :: "string \<Rightarrow> string \<Rightarrow> bool" where
  "HasSuffix s p = (length p \<le> length s \<and> drop (length s - length p) s = p)"

text \<open>
  \<^verbatim>\<open>strings.Split(s, sep)\<close> for a one-byte separator: the library looks for the first
  occurrence of the separator, cuts the piece before it, and goes on with what follows;
  the last piece is what is left when no separator is found. The result is never empty.
\<close>

function Split :: "string \<Rightarrow> char \<Rightarrow> string list" where
  "Split s sep =
     (case dropWhile (\<lambda>c. c \<noteq> sep) s of
        [] \<Rightarrow> [s]
      | _ # rest \<Rightarrow> takeWhile (\<lambda>c. c \<noteq> sep) s # Split rest sep)"
  by pat_completeness auto
termination
proof (relation "measure (\<lambda>(s, sep). length s)")
  show "wf (measure (\<lambda>(s, sep). length s))" by simp
next
  fix s :: string and sep :: char and x rest
  assume d: "dropWhile (\<lambda>c. c \<noteq> sep) s = x # rest"
  have "length (dropWhile (\<lambda>c. c \<noteq> sep) s) \<le> length s"
    by (rule length_dropWhile_le)
  with d show "((rest, sep), (s, sep)) \<in> measure (\<lambda>(s, sep). length s)"
    by simp
qed

declare Split.simps [simp del]

text \<open>Indexing a slice, \<^verbatim>\<open>parts[i]\<close>: the run-time check panics when \<^verbatim>\<open>i\<close> is out
  of range; otherwise the computation goes on with the element.\<close>

definition index :: "'a list \<Rightarrow> nat \<Rightarrow> ('a \<Rightarrow> 'b go) \<Rightarrow> 'b go" where
  "index xs i k = (if i < length xs then k (xs ! i) else Panic)"

section \<open>Configuration and errors\<close>

text \<open>
  Modelled from the spec: package \<^verbatim>\<open>ghproxy/config\<close> is not part of the source. The
  fields read by match.go are \<^verbatim>\<open>cfg.Auth.Method\<close>, \<^verbatim>\<open>cfg.Auth.Enabled\<close>,
  \<^verbatim>\<open>cfg.Auth.ForceAllowApi\<close> (the spec's AuthPolicyView: authMethod, headerAuthEnabled,
  forceAllowApi) and \<^verbatim>\<open>cfg.Shell.RewriteAPI\<close> (the spec's RewritePolicyView:
  rewriteApiHost).
\<close>

record AuthConfig =
  Method :: string
  Enabled :: bool
  ForceAllowApi :: bool

record ShellConfig =
  RewriteAPI :: bool

record Config =
  Auth :: AuthConfig
  Shell :: ShellConfig

text \<open>
  Modelled from the spec: the type \<^verbatim>\<open>GHProxyErrors\<close> and its constructor
  \<^verbatim>\<open>NewErrorWithStatusLookup(status, message)\<close> are declared outside match.go. The spec's
  ClassificationError is \<open>{httpStatus, message}\<close>: the status the boundary layer returns
  and the message.
\<close>

record GHProxyErrors =
  StatusCode :: nat
  ErrorMessage :: string

definition NewErrorWithStatusLookup :: "nat \<Rightarrow> string \<Rightarrow> GHProxyErrors" where
  "NewErrorWithStatusLookup code msg = \<lparr>StatusCode = code, ErrorMessage = msg\<rparr>"

section \<open>Matcher\<close>

text \<open>
  \<^verbatim>\<open>func Matcher(rawPath string, cfg *config.Config) (string, string, string, *GHProxyErrors)\<close>:
  the results are user, repo, matcher and the error (\<^verbatim>\<open>nil\<close> is \<open>None\<close>). The
  branches, their order, their length checks and their indexings are those of the source;
  the branch for \<^verbatim>\<open>https://api.github.com/\<close> indexes \<^verbatim>\<open>parts[1]\<close> and \<^verbatim>\<open>parts[2]\<close>
  with no length check before.
\<close>

type_synonym match_result = "string \<times> string \<times> string \<times> GHProxyErrors option"

text \<open>\<^verbatim>\<open>return "", "", "", NewErrorWithStatusLookup(code, errMsg)\<close>\<close>

definition fail :: "nat \<Rightarrow> string \<Rightarrow> match_result go" where
  "fail code errMsg = Return ('''', '''', '''', Some (NewErrorWithStatusLookup code errMsg))"

text \<open>Sequencing of two statements of which the first may panic.\<close>

definition go_bind :: "'a go \<Rightarrow> ('a \<Rightarrow> 'b go) \<Rightarrow> 'b go" where
  "go_bind m k = (case m of Panic \<Rightarrow> Panic | Return x \<Rightarrow> k x)"

definition Matcher :: "string \<Rightarrow> Config \<Rightarrow> match_result go" where
  "Matcher rawPath cfg =
    (if HasPrefix rawPath ''https://github.com'' then
       (let remainingPath = TrimPrefix rawPath ''https://github.com'';
            remainingPath = (if HasPrefix remainingPath ''/''
                             then TrimPrefix remainingPath ''/'' else remainingPath);
            parts = Split remainingPath CHR ''/''
        in if length parts \<le> 2 then
             fail 400 (''Not enough parts in path after matching 'https://github.com*'' @ [CHR 0x27])
           else
             index parts 0 (\<lambda>user. index parts 1 (\<lambda>repo.
               if 3 \<le> length parts then
                 index parts 2 (\<lambda>p2.
                   if p2 = ''releases'' \<or> p2 = ''archive'' then Return (user, repo, ''releases'', None)
                   else if p2 = ''blob'' then Return (user, repo, ''blob'', None)
                   else if p2 = ''raw'' then Return (user, repo, ''raw'', None)
                   else if p2 = ''info'' \<or> p2 = ''git-upload-pack'' then Return (user, repo, ''clone'', None)
                   else fail 400 ''Url Matched 'https://github.com*', but didn't match the next matcher'')
               else Return (user, repo, '''', None))))
     else if HasPrefix rawPath ''https://raw'' then
       (let remainingPath = TrimPrefix rawPath ''https://'';
            parts = Split remainingPath CHR ''/''
        in if length parts \<le> 3 then
             fail 400 ''URL after matched 'https://raw*' should have at least 4 parts (user/repo/branch/file).''
           else
             index parts 1 (\<lambda>user. index parts 2 (\<lambda>repo.
               Return (user, repo, ''raw'', None))))
     else if HasPrefix rawPath ''https://gist'' then
       (let remainingPath = TrimPrefix rawPath ''https://'';
            parts = Split remainingPath CHR ''/''
        in if length parts \<le> 3 then
             fail 400 ''URL after matched 'https://gist*' should have at least 4 parts (user/gist_id).''
           else
             index parts 1 (\<lambda>user. Return (user, '''', ''gist'', None)))
     else if HasPrefix rawPath ''https://api.github.com/'' then
       (let remainingPath = TrimPrefix rawPath ''https://api.github.com/'';
            parts = Split remainingPath CHR ''/''
        in go_bind (index parts 0 (\<lambda>p0.
                   if p0 = ''repos''
                   then index parts 1 (\<lambda>user. index parts 2 (\<lambda>repo. Return (user, repo)))
                   else Return ('''', '''')))
             (\<lambda>(user, repo).
           go_bind (index parts 0 (\<lambda>p0.
                   if p0 = ''users''
                   then index parts 1 (\<lambda>user. Return (user, repo))
                   else Return (user, repo)))
             (\<lambda>(user, repo).
           if \<not> ForceAllowApi (Auth cfg) then
             if Method (Auth cfg) \<noteq> ''header'' \<or> \<not> Enabled (Auth cfg) then
               fail 403 ''AuthHeader Unavailable, Need to open header auth to enable api proxy''
             else Return (user, repo, ''api'', None)
           else Return (user, repo, ''api'', None))))
     else fail 404 ''Didn't match any matcher'')"

section \<open>EditorMatcher and modifyURL\<close>

text \<open>
  A Go \<^verbatim>\<open>error\<close> value. The constructors are the errors that the library calls of
  match.go can return (\<^verbatim>\<open>io.EOF\<close>, \<^verbatim>\<open>io.ErrUnexpectedEOF\<close>, \<^verbatim>\<open>gzip.ErrHeader\<close>,
  \<^verbatim>\<open>io.ErrClosedPipe\<close>, \<^verbatim>\<open>io.ErrShortWrite\<close>, any other error of a stream by its
  message) and the three wrappers that processLinks builds with \<^verbatim>\<open>fmt.Errorf\<close>
  (gzip decompression, reading a line, writing).
\<close>

datatype error =
    EOF
  | ErrUnexpectedEOF
  | ErrHeader
  | ErrClosedPipe
  | ErrShortWrite
  | ErrWriterClosed
  | IOError string
  | GzipError error
  | ReadLineError error
  | WriteError error

text \<open>\<^verbatim>\<open>func EditorMatcher(rawPath string, cfg *config.Config) (bool, error)\<close>\<close>

definition EditorMatcher :: "string \<Rightarrow> Config \<Rightarrow> bool \<times> error option" where
  "EditorMatcher rawPath cfg =
    (if HasPrefix rawPath ''https://github.com'' then (True, None)
     else if HasPrefix rawPath ''https://raw.githubusercontent.com'' then (True, None)
     else if HasPrefix rawPath ''https://raw.github.com'' then (True, None)
     else if HasPrefix rawPath ''https://gist.githubusercontent.com'' then (True, None)
     else if HasPrefix rawPath ''https://gist.github.com'' then (True, None)
     else if RewriteAPI (Shell cfg) then
       (if HasPrefix rawPath ''https://api.github.com'' then (True, None) else (False, None))
     else (False, None))"

text \<open>\<^verbatim>\<open>func MatcherShell(rawPath string) bool\<close>\<close>

definition MatcherShell :: "string \<Rightarrow> bool" where
  "MatcherShell rawPath = HasSuffix rawPath ''.sh''"

text \<open>
  \<^verbatim>\<open>func modifyURL(url string, host string, cfg *config.Config) string\<close>. The calls of
  \<^verbatim>\<open>logDump\<close> write a diagnostic and have no part in the result.
\<close>

definition modifyURL :: "string \<Rightarrow> string \<Rightarrow> Config \<Rightarrow> string" where
  "modifyURL url host cfg =
    (case EditorMatcher url cfg of
       (matched, err) \<Rightarrow>
         if err \<noteq> None then url
         else if matched then
           (let u = url;
                u = TrimPrefix u ''https://'';
                u = TrimPrefix u ''http://''
            in ''https://'' @ host @ ''/'' @ u)
         else url)"

text \<open>
  The rewriter as the specification words it (sections 4.2 and 4.3): the gate is true for a
  url that starts with one of five hosts, and for the API host when the policy's
  rewriteApiHost is set; a rewrite strips one leading \<^verbatim>\<open>https://\<close> or \<^verbatim>\<open>http://\<close>.
\<close>

definition isEligibleForRewrite :: "string \<Rightarrow> bool \<Rightarrow> bool" where
  "isEligibleForRewrite url rewriteApiHost =
    (prefix ''https://github.com'' url
     \<or> prefix ''https://raw.githubusercontent.com'' url
     \<or> prefix ''https://raw.github.com'' url
     \<or> prefix ''https://gist.githubusercontent.com'' url
     \<or> prefix ''https://gist.github.com'' url
     \<or> (rewriteApiHost \<and> prefix ''https://api.github.com'' url))"

definition strip_scheme_once :: "string \<Rightarrow> string" where
  "strip_scheme_once url =
    (if prefix ''https://'' url then drop 8 url
     else if prefix ''http://'' url then drop 7 url
     else url)"

definition spec_rewrite :: "string \<Rightarrow> string \<Rightarrow> bool \<Rightarrow> string" where
  "spec_rewrite url proxyHost rewriteApiHost =
    (if isEligibleForRewrite url rewriteApiHost
     then ''https://'' @ proxyHost @ ''/'' @ strip_scheme_once url
     else url)"

section \<open>The pattern of urls and its replacement\<close>

text \<open>
  \<^verbatim>\<open>var urlPattern = regexp.MustCompile(`https?://[^\s'"]+`)\<close>. The class
  \<^verbatim>\<open>[^\s'"]\<close> is every character but the white space of the regexp syntax (tab, line
  feed, form feed, carriage return, space) and the two quotes.
\<close>

definition url_char :: "char \<Rightarrow> bool" where
  "url_char c =
    (c \<noteq> CHR 0x09 \<and> c \<noteq> CHR 0x0A \<and> c \<noteq> CHR 0x0C \<and> c \<noteq> CHR 0x0D \<and> c \<noteq> CHR 0x20
     \<and> c \<noteq> CHR 0x27 \<and> c \<noteq> CHR 0x22)"

text \<open>
  The match of urlPattern that starts at the first character of \<open>s\<close>, with what follows
  it: the scheme \<^verbatim>\<open>https://\<close> or \<^verbatim>\<open>http://\<close>, then the longest run of one or more
  characters of the class.
\<close>

definition urlPattern :: "string \<Rightarrow> (string \<times> string) option" where
  "urlPattern s =
    (case (if HasPrefix s ''https://'' then Some ''https://''
           else if HasPrefix s ''http://'' then Some ''http://'' else None) of
       None \<Rightarrow> None
     | Some scheme \<Rightarrow>
         (let after = drop (length scheme) s
          in if takeWhile url_char after = [] then None
             else Some (scheme @ takeWhile url_char after, dropWhile url_char after)))"

text \<open>
  \<^verbatim>\<open>urlPattern.ReplaceAllStringFunc(line, repl)\<close>: the matches are found from left to
  right and do not overlap; each is replaced by \<open>repl\<close> of it, the text between them is
  copied.
\<close>

function ReplaceAllStringFunc :: "string \<Rightarrow> (string \<Rightarrow> string) \<Rightarrow> string" where
  "ReplaceAllStringFunc [] repl = []"
| "ReplaceAllStringFunc (c # cs) repl =
     (case urlPattern (c # cs) of
        Some (m, after) \<Rightarrow> repl m @ ReplaceAllStringFunc after repl
      | None \<Rightarrow> c # ReplaceAllStringFunc cs repl)"
  by pat_completeness auto
termination
proof (relation "measure (\<lambda>(s, repl). length s)", goal_cases)
  case 1
  show ?case by simp
next
  case (2 c cs repl)
  show ?case by simp
next
  case (3 c cs repl x2 m after)
  then have u: "urlPattern (c # cs) = Some (m, after)" by simp
  have "\<exists>k>0. after = dropWhile url_char (drop k (c # cs))
      \<and> takeWhile url_char (drop k (c # cs)) \<noteq> []"
  proof (cases "HasPrefix (c # cs) ''https://''")
    case True
    with u show ?thesis
      unfolding urlPattern_def Let_def
      by (intro exI [of _ "length ''https://''"]) (auto split: if_splits)
  next
    case False
    with u show ?thesis
      unfolding urlPattern_def Let_def
      by (intro exI [of _ "length ''http://''"]) (auto split: if_splits)
  qed
  then obtain k where k: "0 < k" "after = dropWhile url_char (drop k (c # cs))"
    "takeWhile url_char (drop k (c # cs)) \<noteq> []" by blast
  from k(3) have "drop k (c # cs) \<noteq> []" by auto
  then have "k < length (c # cs)" by simp
  moreover have "length after \<le> length (drop k (c # cs))"
    unfolding k(2) by (rule length_dropWhile_le)
  ultimately have "length after < length (c # cs)" using k(1) by simp
  then show ?case by simp
qed

declare ReplaceAllStringFunc.simps [simp del]

section \<open>The streams of processLinks\<close>

text \<open>
  The input \<^verbatim>\<open>io.ReadCloser\<close>: the bytes its reads deliver, the error that ends them
  (\<open>EOF\<close> at the end of the stream, any other error for a failed read), and what
  \<^verbatim>\<open>Close()\<close> returns.
\<close>

record ReadCloser =
  content :: string
  ending :: error
  close_result :: "error option"

text \<open>
  What processLinks does not decide: the consumer of the pipe and the gzip format.
  The consumer reads the pipe to its end (\<open>wanted = None\<close>), or closes the read end with
  the error \<open>rclose\<close> once it has read \<open>wanted = Some k\<close> bytes. For a stream whose first
  ten bytes are accepted, \<open>gz_body\<close> gives what \<^verbatim>\<open>gzip.NewReader\<close> and the reads of the
  reader deliver: an error of the optional header fields, or the decompressed bytes and the
  error that ends them. \<open>gz_emit plain p\<close> are the bytes that \<^verbatim>\<open>gzip.Writer.Write(p)\<close>
  passes on after the plain text \<open>plain\<close>, and \<open>gz_final plain\<close> are the bytes that
  \<^verbatim>\<open>gzip.Writer.Close()\<close> passes on.
\<close>

record env =
  wanted :: "nat option"
  rclose :: error
  gz_body :: "string \<Rightarrow> error \<Rightarrow> error + (string \<times> error)"
  gz_emit :: "string \<Rightarrow> string \<Rightarrow> string"
  gz_final :: "string \<Rightarrow> string"

text \<open>The calls of \<^verbatim>\<open>logError\<close>, by their format strings.\<close>

datatype log_entry =
    PipeCloseWithErrorFailed error error
  | PipeCloseFailed error
  | InputCloseFailed error
  | GzipWriterCloseFailed error
  | WriterFlushFailed error

text \<open>
  The variables of the goroutine: the buffer and the sticky error of \<^verbatim>\<open>bufWriter\<close>; the
  plain text taken by \<^verbatim>\<open>gzipWriter\<close>, whether it is closed, its sticky error; the bytes
  the consumer has read from the pipe and how the write end was closed (\<open>Some None\<close> by
  \<^verbatim>\<open>Close()\<close>, \<open>Some (Some e)\<close> by \<^verbatim>\<open>CloseWithError(e)\<close>); the named results
  \<^verbatim>\<open>written\<close> and \<^verbatim>\<open>err\<close>; the log.
\<close>

record state =
  buf :: string
  buf_err :: "error option"
  gz_plain :: string
  gz_closed :: bool
  gz_err :: "error option"
  delivered :: string
  closed_with :: "error option option"
  written :: int
  err :: "error option"
  logs :: "log_entry list"

definition initial :: state where
  "initial = \<lparr>buf = [], buf_err = None, gz_plain = [], gz_closed = False, gz_err = None,
              delivered = [], closed_with = None, written = 0, err = None, logs = []\<rparr>"

definition logError :: "log_entry \<Rightarrow> state \<Rightarrow> state" where
  "logError e st = st\<lparr>logs := logs st @ [e]\<rparr>"

text \<open>
  \<^verbatim>\<open>bufReader.ReadString('\n')\<close> on the bytes not yet read and the error that ends
  them: the line with its line feed and no error, or the bytes before the end with the
  error of the end.
\<close>

definition ReadString :: "string \<Rightarrow> error \<Rightarrow> string \<times> error option \<times> string" where
  "ReadString rest end =
    (case dropWhile (\<lambda>c. c \<noteq> CHR 0x0A) rest of
       [] \<Rightarrow> (rest, Some end, [])
     | d # after \<Rightarrow> (takeWhile (\<lambda>c. c \<noteq> CHR 0x0A) rest @ [d], None, after))"

text \<open>
  \<^verbatim>\<open>gzip.NewReader(input)\<close> reads ten bytes with \<^verbatim>\<open>io.ReadFull\<close> and checks the two
  magic bytes and the method; an input that ends before gives the error of its end
  (\<^verbatim>\<open>io.ErrUnexpectedEOF\<close> when some bytes were read before \<open>EOF\<close>).
\<close>

definition gzip_NewReader :: "env \<Rightarrow> ReadCloser \<Rightarrow> error + (string \<times> error)" where
  "gzip_NewReader E input =
    (if length (content input) < 10 then
       Inl (if content input \<noteq> [] \<and> ending input = EOF then ErrUnexpectedEOF else ending input)
     else if content input ! 0 \<noteq> CHR 0x1F \<or> content input ! 1 \<noteq> CHR 0x8B
             \<or> content input ! 2 \<noteq> CHR 0x08 then Inl ErrHeader
     else gz_body E (content input) (ending input))"

text \<open>
  \<^verbatim>\<open>pipeWriter.Write(b)\<close> returns when the consumer has read all of \<open>b\<close>, or with the
  number of bytes read and the error of the read end when the consumer closes it.
\<close>

definition pipe_Write :: "env \<Rightarrow> state \<Rightarrow> string \<Rightarrow> nat \<times> error option \<times> state" where
  "pipe_Write E st b =
    (case wanted E of
       None \<Rightarrow> (length b, None, st\<lparr>delivered := delivered st @ b\<rparr>)
     | Some k \<Rightarrow>
         if k \<le> length (delivered st) then (0, Some (rclose E), st)
         else if length (delivered st) + length b \<le> k
         then (length b, None, st\<lparr>delivered := delivered st @ b\<rparr>)
         else (k - length (delivered st), Some (rclose E),
               st\<lparr>delivered := delivered st @ take (k - length (delivered st)) b\<rparr>))"

text \<open>
  \<^verbatim>\<open>gzipWriter.Write(p)\<close> and \<^verbatim>\<open>gzipWriter.Close()\<close>: an error of the writer is kept
  and returned by every later call; a write after \<^verbatim>\<open>Close()\<close> is an error; the
  compressed bytes go to the pipe.
\<close>

definition gz_Write :: "env \<Rightarrow> state \<Rightarrow> string \<Rightarrow> nat \<times> error option \<times> state" where
  "gz_Write E st p =
    (if gz_err st \<noteq> None then (0, gz_err st, st)
     else if gz_closed st then (0, Some ErrWriterClosed, st\<lparr>gz_err := Some ErrWriterClosed\<rparr>)
     else case pipe_Write E st (gz_emit E (gz_plain st) p) of
       (n, e, st') \<Rightarrow>
         ((if e = None then length p else 0), e,
          st'\<lparr>gz_plain := gz_plain st @ p, gz_err := e\<rparr>))"

definition gz_Close :: "env \<Rightarrow> state \<Rightarrow> error option \<times> state" where
  "gz_Close E st =
    (if gz_err st \<noteq> None then (gz_err st, st)
     else if gz_closed st then (None, st)
     else case pipe_Write E (st\<lparr>gz_closed := True\<rparr>) (gz_final E (gz_plain st)) of
       (n, e, st') \<Rightarrow> (e, st'\<lparr>gz_err := e\<rparr>))"

text \<open>
  \<^verbatim>\<open>bufWriter\<close> is a \<^verbatim>\<open>bufio.Writer\<close> of 4096 bytes over \<^verbatim>\<open>gzipWriter\<close> when
  \<^verbatim>\<open>compress == "gzip"\<close>, over \<^verbatim>\<open>pipeWriter\<close> otherwise.
\<close>

definition under_Write :: "env \<Rightarrow> string \<Rightarrow> state \<Rightarrow> string \<Rightarrow> nat \<times> error option \<times> state" where
  "under_Write E compress st b =
    (if compress = ''gzip'' then gz_Write E st b else pipe_Write E st b)"

definition Available :: "state \<Rightarrow> nat" where
  "Available st = 4096 - length (buf st)"

text \<open>\<^verbatim>\<open>bufWriter.Flush()\<close>\<close>

definition Flush :: "env \<Rightarrow> string \<Rightarrow> state \<Rightarrow> error option \<times> state" where
  "Flush E compress st =
    (if buf_err st \<noteq> None then (buf_err st, st)
     else if buf st = [] then (None, st)
     else case under_Write E compress st (buf st) of
       (n, e, st') \<Rightarrow>
         (let e = (if n < length (buf st) \<and> e = None then Some ErrShortWrite else e)
          in if e \<noteq> None then (e, st'\<lparr>buf := drop n (buf st), buf_err := e\<rparr>)
             else (None, st'\<lparr>buf := []\<rparr>)))"

text \<open>
  \<^verbatim>\<open>bufWriter.WriteString(s)\<close>: while \<open>s\<close> does not fit into the buffer, the buffer is
  filled and flushed; the rest is copied into the buffer. The result is the number of bytes
  taken, \<open>nn\<close> counting them, and the error of the writer.
\<close>

function WriteString ::
  "env \<Rightarrow> string \<Rightarrow> state \<Rightarrow> string \<Rightarrow> nat \<Rightarrow> nat \<times> error option \<times> state" where
  "WriteString E compress st s nn =
    (if Available st < length s \<and> buf_err st = None then
       (let n = min (Available st) (length s);
            st1 = st\<lparr>buf := buf st @ take n s\<rparr>;
            st2 = snd (Flush E compress st1)
        in WriteString E compress st2 (drop n s) (nn + n))
     else if buf_err st \<noteq> None then (nn, buf_err st, st)
     else (nn + length s, None, st\<lparr>buf := buf st @ s\<rparr>))"
  by pat_completeness auto
termination
proof (relation "measure (\<lambda>(E, compress, st, s, nn).
    2 * length s + (if Available st = 0 \<and> buf_err st = None then 1 else 0))")
  show "wf (measure (\<lambda>(E, compress, st, s, nn).
    2 * length s + (if Available st = 0 \<and> buf_err st = None then 1 else 0)))" by simp
next
  fix E :: env and compress :: string and st :: state and s :: string and nn :: nat
    and n st1 st2
  assume c: "Available st < length s \<and> buf_err st = None"
    and n: "n = min (Available st) (length s)"
    and st1: "st1 = st\<lparr>buf := buf st @ take n s\<rparr>"
    and st2: "st2 = snd (Flush E compress st1)"
  have ne: "buf st1 \<noteq> []"
  proof (cases "Available st = 0")
    case True
    then have "4096 \<le> length (buf st)" by (simp add: Available_def)
    then show ?thesis unfolding st1 by auto
  next
    case False
    with c n have "0 < n" by simp
    with c n show ?thesis unfolding st1 by auto
  qed
  have e1: "buf_err st1 = None" using c unfolding st1 by simp
  have after: "buf_err st2 \<noteq> None \<or> buf st2 = []"
    unfolding st2 Flush_def Let_def using ne e1
    by (auto split: prod.splits)
  then have flag: "(if Available st2 = 0 \<and> buf_err st2 = None then 1 else 0) = (0::nat)"
    by (auto simp: Available_def)
  show "((E, compress, st2, drop n s, nn + n), (E, compress, st, s, nn))
      \<in> measure (\<lambda>(E, compress, st, s, nn).
           2 * length s + (if Available st = 0 \<and> buf_err st = None then 1 else 0))"
  proof (cases "Available st = 0")
    case True
    with n have "n = 0" by simp
    with True c flag show ?thesis by simp
  next
    case False
    with c n have "0 < n" "n \<le> length s" by simp_all
    with flag show ?thesis by simp
  qed
qed

declare WriteString.simps [simp del]

section \<open>processLinks\<close>

text \<open>How the \<^verbatim>\<open>for\<close> loop is left: by \<^verbatim>\<open>break\<close>, or by the \<^verbatim>\<open>return\<close> of the goroutine.\<close>

datatype exit = Break | Returned

text \<open>
  One pass through the body of the loop (lines 295 to 315), on the bytes not yet read:
  the way the loop is left, if it is, the bytes still to read, and the variables.
\<close>

definition iteration ::
  "env \<Rightarrow> string \<Rightarrow> string \<Rightarrow> Config \<Rightarrow> error \<Rightarrow> string \<Rightarrow> state
    \<Rightarrow> exit option \<times> string \<times> state" where
  "iteration E compress host cfg end rest st =
    (case ReadString rest end of
       (line, readErr, rest') \<Rightarrow>
         (case readErr of
            Some e \<Rightarrow>
              if e = EOF then (Some Break, rest', st)
              else (Some Returned, rest', st\<lparr>err := Some (ReadLineError e)\<rparr>)
          | None \<Rightarrow>
              (let modifiedLine =
                     ReplaceAllStringFunc line (\<lambda>originalURL. modifyURL originalURL host cfg)
               in case WriteString E compress st modifiedLine 0 of
                    (n, writeErr, st') \<Rightarrow>
                      (let st'' = st'\<lparr>written := written st' + int n\<rparr>
                       in case writeErr of
                            Some e \<Rightarrow> (Some Returned, rest', st''\<lparr>err := Some (WriteError e)\<rparr>)
                          | None \<Rightarrow> (None, rest', st'')))))"

function loop ::
  "env \<Rightarrow> string \<Rightarrow> string \<Rightarrow> Config \<Rightarrow> error \<Rightarrow> string \<Rightarrow> state \<Rightarrow> exit \<times> state" where
  "loop E compress host cfg end rest st =
    (case iteration E compress host cfg end rest st of
       (Some x, rest', st') \<Rightarrow> (x, st')
     | (None, rest', st') \<Rightarrow> loop E compress host cfg end rest' st')"
  by pat_completeness auto
termination
proof (relation "measure (\<lambda>(E, compress, host, cfg, end, rest, st). length rest)", goal_cases)
  case 1
  show ?case by simp
next
  case (2 E compress host cfg "end" rest st x y rest' st')
  then have i: "iteration E compress host cfg end rest st = (None, rest', st')"
    by (metis prod.collapse fst_conv snd_conv)
  then obtain d where r: "dropWhile (\<lambda>c. c \<noteq> CHR 0x0A) rest = d # rest'"
    unfolding iteration_def ReadString_def Let_def
    by (auto split: list.splits prod.splits option.splits if_splits)
  have "length (dropWhile (\<lambda>c. c \<noteq> CHR 0x0A) rest) \<le> length rest"
    by (rule length_dropWhile_le)
  with r show ?case by simp
qed

declare loop.simps [simp del]

text \<open>
  At most \<open>k\<close> passes through the body of the loop: how the loop was left, if it was,
  the bytes still to read, and the variables.
\<close>

primrec passes ::
  "nat \<Rightarrow> env \<Rightarrow> string \<Rightarrow> string \<Rightarrow> Config \<Rightarrow> error \<Rightarrow> string \<Rightarrow> state
    \<Rightarrow> exit option \<times> string \<times> state" where
  "passes 0 E compress host cfg end rest st = (None, rest, st)"
| "passes (Suc k) E compress host cfg end rest st =
     (case iteration E compress host cfg end rest st of
        (Some x, rest', st') \<Rightarrow> (Some x, rest', st')
      | (None, rest', st') \<Rightarrow> passes k E compress host cfg end rest' st')"

text \<open>
  What follows the loop (lines 318 to 324): after a \<^verbatim>\<open>break\<close>, the flush, whose error
  is recorded when no error is recorded yet. A \<^verbatim>\<open>return\<close> inside the loop skips the flush.
\<close>

definition after_loop :: "env \<Rightarrow> string \<Rightarrow> exit \<times> state \<Rightarrow> state" where
  "after_loop E compress p =
    (case p of
       (Returned, st') \<Rightarrow> st'
     | (Break, st') \<Rightarrow>
         (case Flush E compress st' of
            (Some flushErr, st'') \<Rightarrow>
              if err st'' = None then st''\<lparr>err := Some flushErr\<rparr> else st''
          | (None, st'') \<Rightarrow> st''))"

text \<open>The loop and what follows it.\<close>

definition body ::
  "env \<Rightarrow> string \<Rightarrow> string \<Rightarrow> Config \<Rightarrow> error \<Rightarrow> string \<Rightarrow> state \<Rightarrow> state" where
  "body E compress host cfg end rest st =
     after_loop E compress (loop E compress host cfg end rest st)"

text \<open>The rest of the loop, and what follows it, from where some passes have led.\<close>

definition finish ::
  "env \<Rightarrow> string \<Rightarrow> string \<Rightarrow> Config \<Rightarrow> error \<Rightarrow> exit option \<times> string \<times> state \<Rightarrow> state" where
  "finish E compress host cfg end p =
    (case p of
       (Some x, rest, st) \<Rightarrow> after_loop E compress (x, st)
     | (None, rest, st) \<Rightarrow> body E compress host cfg end rest st)"

text \<open>
  The deferred function of lines 272 to 291, in its two statements. The first closes
  \<^verbatim>\<open>gzipWriter\<close> if there is one; the second flushes \<^verbatim>\<open>bufWriter\<close>. A failure is logged,
  and recorded when no error is recorded yet.
\<close>

definition deferred_gzip_close :: "env \<Rightarrow> string \<Rightarrow> state \<Rightarrow> state" where
  "deferred_gzip_close E compress st =
    (if compress = ''gzip'' then
       (case gz_Close E st of
          (Some closeErr, st') \<Rightarrow>
            (let st' = logError (GzipWriterCloseFailed closeErr) st'
             in if err st' = None then st'\<lparr>err := Some closeErr\<rparr> else st')
        | (None, st') \<Rightarrow> st')
     else st)"

definition deferred_flush :: "env \<Rightarrow> string \<Rightarrow> state \<Rightarrow> state" where
  "deferred_flush E compress st1 =
    (case Flush E compress st1 of
       (Some flushErr, st2) \<Rightarrow>
         (let st2 = logError (WriterFlushFailed flushErr) st2
          in if err st2 = None then st2\<lparr>err := Some flushErr\<rparr> else st2)
     | (None, st2) \<Rightarrow> st2)"

definition deferred_writers :: "env \<Rightarrow> string \<Rightarrow> state \<Rightarrow> state" where
  "deferred_writers E compress st = deferred_flush E compress (deferred_gzip_close E compress st)"

text \<open>
  The deferred function of lines 238 to 243: the error of \<^verbatim>\<open>input.Close()\<close> is a
  variable of the \<^verbatim>\<open>if\<close> statement; it is logged, and \<^verbatim>\<open>err\<close> of the goroutine is not
  assigned.
\<close>

definition deferred_input_close :: "ReadCloser \<Rightarrow> state \<Rightarrow> state" where
  "deferred_input_close input st =
    (case close_result input of
       Some e \<Rightarrow> logError (InputCloseFailed e) st
     | None \<Rightarrow> st)"

text \<open>
  The deferred function of lines 221 to 236. \<^verbatim>\<open>pipeWriter\<close> is never nil, and closing
  the write end of an \<^verbatim>\<open>io.Pipe\<close> returns nil.
\<close>

definition deferred_pipe_close :: "state \<Rightarrow> state" where
  "deferred_pipe_close st =
    (case err st of
       Some e \<Rightarrow> st\<lparr>closed_with := Some (Some e)\<rparr>
     | None \<Rightarrow> st\<lparr>closed_with := Some None\<rparr>)"

text \<open>
  The reader of lines 245 to 258: the error of \<^verbatim>\<open>gzip.NewReader\<close> wrapped by
  \<^verbatim>\<open>fmt.Errorf\<close>, or the bytes that \<^verbatim>\<open>bufReader\<close> will read and the error that ends
  them.
\<close>

definition open_reader :: "env \<Rightarrow> ReadCloser \<Rightarrow> string \<Rightarrow> error + (string \<times> error)" where
  "open_reader E input compress =
    (if compress = ''gzip'' then
       (case gzip_NewReader E input of
          Inl gzipErr \<Rightarrow> Inl (GzipError gzipErr)
        | Inr r \<Rightarrow> Inr r)
     else Inr (content input, ending input))"

text \<open>
  The goroutine of lines 220 to 325 by itself, from its start to its end, with no other
  statement writing its variables: the variables when it has run its deferred functions,
  in the reverse order of their \<^verbatim>\<open>defer\<close> statements. When \<^verbatim>\<open>gzip.NewReader\<close> fails,
  only the first two are registered. The deferred \<^verbatim>\<open>gzipReader.Close()\<close> of line 254
  changes none of the variables.
\<close>

definition goroutine :: "env \<Rightarrow> ReadCloser \<Rightarrow> string \<Rightarrow> string \<Rightarrow> Config \<Rightarrow> state" where
  "goroutine E input compress host cfg =
    (case open_reader E input compress of
       Inl e \<Rightarrow>
         deferred_pipe_close (deferred_input_close input (initial\<lparr>err := Some e\<rparr>))
     | Inr (rest, end) \<Rightarrow>
         deferred_pipe_close (deferred_input_close input
           (deferred_writers E compress (body E compress host cfg end rest initial))))"

text \<open>
  What the consumer drains from \<^verbatim>\<open>readerOut\<close>: the bytes, then the end of the stream
  (\<open>None\<close>) or the error the write end was closed with.
\<close>

definition drain :: "state \<Rightarrow> string \<times> error option" where
  "drain st = (delivered st, (case closed_with st of Some (Some e) \<Rightarrow> Some e | _ \<Rightarrow> None))"

text \<open>
  \<^verbatim>\<open>func processLinks(input io.ReadCloser, compress string, host string, cfg *config.Config)
  (readerOut io.Reader, written int64, err error)\<close>. The function starts the goroutine and
  returns at once with \<^verbatim>\<open>return readerOut, written, nil\<close> (line 327). The named results
  \<^verbatim>\<open>written\<close> and \<^verbatim>\<open>err\<close> are the variables that the goroutine adds to (line 311),
  assigns (lines 251, 300, 313, 321 and the deferred functions) and reads (line 223). The
  \<^verbatim>\<open>return\<close> statement reads \<^verbatim>\<open>written\<close> for the caller and assigns \<^verbatim>\<open>nil\<close> to
  \<^verbatim>\<open>err\<close>, and nothing orders it and the statements of the goroutine. A schedule names
  the moment of the goroutine at which the \<^verbatim>\<open>return\<close> statement runs:
  \<^item> \<open>Passes k\<close>: when the goroutine has made \<open>k\<close> passes through the body of its loop, or
    has just left the loop if it leaves it sooner (\<open>Passes 0\<close>: before the goroutine
    starts); when \<^verbatim>\<open>gzip.NewReader\<close> fails there is no loop, and the moment is before
    the goroutine starts;
  \<^item> \<open>BeforeDeferred\<close>: when the goroutine has reached its end or a \<^verbatim>\<open>return\<close>, before
    its deferred functions;
  \<^item> \<open>BetweenWriters\<close>: in the deferred function of lines 272 to 291, between its two
    statements;
  \<^item> \<open>AfterWriters\<close>: after that deferred function (when \<^verbatim>\<open>gzip.NewReader\<close> fails it is
    not registered, and these two moments are that of \<open>BeforeDeferred\<close>);
  \<^item> \<open>AfterInputClose\<close>: after the deferred function of lines 238 to 243;
  \<^item> \<open>AfterClose\<close>: after the deferred function of lines 221 to 236, when the goroutine
    has ended.

  The consumer receives \<^verbatim>\<open>readerOut\<close> from the \<^verbatim>\<open>return\<close> statement, and a write to the
  pipe completes only when the consumer reads or closes its end: a moment that follows a
  write to the pipe is the moment of no run. The schedules are all the moments, those of
  the runs among them.
\<close>

datatype schedule =
  Passes nat | BeforeDeferred | BetweenWriters | AfterWriters | AfterInputClose | AfterClose

text \<open>
  The \<^verbatim>\<open>return\<close> statement of line 327 on the variables of the goroutine: \<^verbatim>\<open>err\<close>
  becomes \<^verbatim>\<open>nil\<close>; the second component is the value of \<^verbatim>\<open>written\<close> that the caller
  receives.
\<close>

definition return_statement :: "state \<times> int option \<Rightarrow> state \<times> int option" where
  "return_statement p = (case p of (st, r) \<Rightarrow> (st\<lparr>err := None\<rparr>, Some (written st)))"

definition return_at :: "schedule \<Rightarrow> schedule \<Rightarrow> state \<times> int option \<Rightarrow> state \<times> int option" where
  "return_at moment s p = (if s = moment then return_statement p else p)"

text \<open>
  The goroutine together with the \<^verbatim>\<open>return\<close> statement of the function that started
  it, under a schedule: the variables at the end of the goroutine, and the value of
  \<^verbatim>\<open>written\<close> that the caller has received.
\<close>

definition goroutine_and_return ::
  "schedule \<Rightarrow> env \<Rightarrow> ReadCloser \<Rightarrow> string \<Rightarrow> string \<Rightarrow> Config \<Rightarrow> state \<times> int option" where
  "goroutine_and_return s E input compress host cfg =
    (case open_reader E input compress of
       Inl e \<Rightarrow>
         (let p0 = (case s of Passes k \<Rightarrow> return_statement (initial, None) | _ \<Rightarrow> (initial, None));
              p1 = apfst (\<lambda>st. st\<lparr>err := Some e\<rparr>) p0;
              p2 = return_at BeforeDeferred s p1;
              p3 = return_at AfterWriters s (return_at BetweenWriters s p2);
              p4 = return_at AfterInputClose s (apfst (deferred_input_close input) p3)
          in return_at AfterClose s (apfst deferred_pipe_close p4))
     | Inr (rest, end) \<Rightarrow>
         (let p1 = (case s of
                      Passes k \<Rightarrow>
                        (case passes k E compress host cfg end rest initial of
                           (x, rest', st') \<Rightarrow>
                             (case return_statement (st', None) of
                                (st'', r) \<Rightarrow> (finish E compress host cfg end (x, rest', st''), r)))
                    | _ \<Rightarrow> (body E compress host cfg end rest initial, None));
              p2 = return_at BeforeDeferred s p1;
              p2' = return_at BetweenWriters s (apfst (deferred_gzip_close E compress) p2);
              p3 = return_at AfterWriters s (apfst (deferred_flush E compress) p2');
              p4 = return_at AfterInputClose s (apfst (deferred_input_close input) p3)
          in return_at AfterClose s (apfst deferred_pipe_close p4)))"

text \<open>
  The results of processLinks under a schedule: the first result by what the consumer
  will drain from it, the value of \<^verbatim>\<open>written\<close> that the \<^verbatim>\<open>return\<close> statement has read,
  and \<^verbatim>\<open>nil\<close>.
\<close>

definition processLinks ::
  "schedule \<Rightarrow> env \<Rightarrow> ReadCloser \<Rightarrow> string \<Rightarrow> string \<Rightarrow> Config
    \<Rightarrow> (string \<times> error option) \<times> int \<times> error option" where
  "processLinks s E input compress host cfg =
    (case goroutine_and_return s E input compress host cfg of
       (st, r) \<Rightarrow> (drain st, (case r of Some w \<Rightarrow> w | None \<Rightarrow> written st), None))"

text \<open>
  The output as the specification describes it (section 4.4, step 5): the lines of the
  input that a line feed ends, each with its line feed, in their order, every match of
  the pattern in a line replaced by the rewritten url.
\<close>

definition complete_lines :: "string \<Rightarrow> string list" where
  "complete_lines c = map (\<lambda>l. l @ [CHR 0x0A]) (butlast (Split c (CHR 0x0A)))"

definition rewritten_lines :: "string \<Rightarrow> string \<Rightarrow> Config \<Rightarrow> string" where
  "rewritten_lines c host cfg =
     concat (map (\<lambda>line. ReplaceAllStringFunc line (\<lambda>originalURL. modifyURL originalURL host cfg))
               (complete_lines c))"

section \<open>Facts about the string functions\<close>

lemma HasPrefix_prefix: "HasPrefix s p = prefix p s"
proof
  assume "HasPrefix s p"
  then have "take (length p) s = p" by (simp add: HasPrefix_def)
  then show "prefix p s" by (metis take_is_prefix)
next
  assume "prefix p s"
  then obtain r where "s = p @ r" by (auto simp: prefix_def)
  then show "HasPrefix s p" by (simp add: HasPrefix_def)
qed

lemma Split_none: "sep \<notin> set s \<Longrightarrow> Split s sep = [s]"
proof -
  assume "sep \<notin> set s"
  then have d: "dropWhile (\<lambda>c. c \<noteq> sep) s = []" by auto
  show ?thesis by (subst Split.simps) (simp only: d list.case)
qed

lemma Split_sep: "sep \<notin> set a \<Longrightarrow> Split (a @ sep # b) sep = a # Split b sep"
proof -
  assume a: "sep \<notin> set a"
  then have d: "dropWhile (\<lambda>c. c \<noteq> sep) (a @ sep # b) = sep # b"
    by (induction a) auto
  from a have t: "takeWhile (\<lambda>c. c \<noteq> sep) (a @ sep # b) = a"
    by (induction a) auto
  show ?thesis by (subst Split.simps) (simp only: d t list.case)
qed

lemma Split_not_Nil: "Split s sep \<noteq> []"
  by (subst Split.simps) (simp split: list.splits)

lemma github_prefix:
  "HasPrefix (''https://github.com/'' @ x) ''https://github.com''"
  "TrimPrefix (''https://github.com/'' @ x) ''https://github.com'' = CHR ''/'' # x"
  "HasPrefix (CHR ''/'' # x) ''/''"
  "TrimPrefix (CHR ''/'' # x) ''/'' = x"
  by (simp_all add: HasPrefix_def TrimPrefix_def)

section \<open>The branch of Matcher for https://github.com\<close>

lemma Matcher_github:
  "HasPrefix rawPath ''https://github.com'' \<Longrightarrow> Matcher rawPath cfg =
       (let remainingPath = TrimPrefix rawPath ''https://github.com'';
            remainingPath = (if HasPrefix remainingPath ''/''
                             then TrimPrefix remainingPath ''/'' else remainingPath);
            parts = Split remainingPath CHR ''/''
        in if length parts \<le> 2 then
             fail 400 (''Not enough parts in path after matching 'https://github.com*'' @ [CHR 0x27])
           else
             index parts 0 (\<lambda>user. index parts 1 (\<lambda>repo.
               if 3 \<le> length parts then
                 index parts 2 (\<lambda>p2.
                   if p2 = ''releases'' \<or> p2 = ''archive'' then Return (user, repo, ''releases'', None)
                   else if p2 = ''blob'' then Return (user, repo, ''blob'', None)
                   else if p2 = ''raw'' then Return (user, repo, ''raw'', None)
                   else if p2 = ''info'' \<or> p2 = ''git-upload-pack'' then Return (user, repo, ''clone'', None)
                   else fail 400 ''Url Matched 'https://github.com*', but didn't match the next matcher'')
               else Return (user, repo, '''', None))))"
  unfolding Matcher_def by (simp only: if_True)

lemma Matcher_github_parts:
  assumes "CHR ''/'' \<notin> set owner" "CHR ''/'' \<notin> set repo"
  shows "Matcher (''https://github.com/'' @ owner @ ''/'' @ repo @ ''/'' @ r) cfg =
     (case Split r CHR ''/'' of
        [] \<Rightarrow> Panic
      | p2 # _ \<Rightarrow>
         if p2 = ''releases'' \<or> p2 = ''archive'' then Return (owner, repo, ''releases'', None)
         else if p2 = ''blob'' then Return (owner, repo, ''blob'', None)
         else if p2 = ''raw'' then Return (owner, repo, ''raw'', None)
         else if p2 = ''info'' \<or> p2 = ''git-upload-pack'' then Return (owner, repo, ''clone'', None)
         else fail 400 ''Url Matched 'https://github.com*', but didn't match the next matcher'')"
proof -
  have s: "Split (owner @ ''/'' @ repo @ ''/'' @ r) CHR ''/'' = owner # repo # Split r CHR ''/''"
    using assms Split_sep [of "CHR ''/''" owner "repo @ ''/'' @ r"] Split_sep [of "CHR ''/''" repo r]
    by simp
  obtain p2 ps where ps: "Split r CHR ''/'' = p2 # ps"
    using Split_not_Nil [of r "CHR ''/''"] by (cases "Split r CHR ''/''") auto
  show ?thesis
    apply (subst Matcher_github)
     apply (rule github_prefix(1))
    apply (simp only: github_prefix Let_def if_True s ps)
    apply (simp only: index_def list.size list.case nth_Cons_0 nth_Cons_Suc One_nat_def)
    apply simp
    done
qed

lemma Split_third_segment:
  assumes "CHR ''/'' \<notin> set seg" "rest = [] \<or> (\<exists>more. rest = CHR ''/'' # more)"
  shows "\<exists>ps. Split (seg @ rest) CHR ''/'' = seg # ps"
proof (cases rest)
  case Nil
  then show ?thesis using assms(1) by (simp add: Split_none)
next
  case (Cons c more)
  with assms(2) have "rest = CHR ''/'' # more" by simp
  then show ?thesis using assms(1) by (simp add: Split_sep)
qed

text \<open>
  C1. For every path \<^verbatim>\<open>https://github.com/<owner>/<repo>/<seg>\<close>, alone or followed by
  \<^verbatim>\<open>/...\<close>, Matcher returns no error, the owner and the repo, and the matcher
  \<^verbatim>\<open>releases\<close> for the third segment releases or archive, \<^verbatim>\<open>blob\<close> for blob,
  \<^verbatim>\<open>raw\<close> for raw and \<^verbatim>\<open>clone\<close> for info or git-upload-pack; any other third
  segment gives the error of status 400 and no owner, repo or matcher.
\<close>

theorem Matcher_github_third_segment:
  assumes "CHR ''/'' \<notin> set owner" and "CHR ''/'' \<notin> set repo" and "CHR ''/'' \<notin> set seg"
    and "rest = [] \<or> (\<exists>more. rest = CHR ''/'' # more)"
  shows "Matcher (''https://github.com/'' @ owner @ ''/'' @ repo @ ''/'' @ seg @ rest) cfg =
     (if seg = ''releases'' \<or> seg = ''archive'' then Return (owner, repo, ''releases'', None)
      else if seg = ''blob'' then Return (owner, repo, ''blob'', None)
      else if seg = ''raw'' then Return (owner, repo, ''raw'', None)
      else if seg = ''info'' \<or> seg = ''git-upload-pack'' then Return (owner, repo, ''clone'', None)
      else Return ('''', '''', '''',
             Some \<lparr>StatusCode = 400,
                   ErrorMessage = ''Url Matched 'https://github.com*', but didn't match the next matcher''\<rparr>))"
proof -
  obtain ps where ps: "Split (seg @ rest) CHR ''/'' = seg # ps"
    using Split_third_segment [OF assms(3,4)] by blast
  show ?thesis
    unfolding Matcher_github_parts [OF assms(1,2)] ps
    by (simp add: fail_def NewErrorWithStatusLookup_def)
qed

theorem Matcher_github_third_segment_witness:
  "(\<forall>cfg. Matcher ''https://github.com/acme/widget/releases/download/v1/w.tgz'' cfg
            = Return (''acme'', ''widget'', ''releases'', None))
   \<and> (\<forall>cfg. Matcher ''https://github.com/acme/widget/git-upload-pack'' cfg
            = Return (''acme'', ''widget'', ''clone'', None))
   \<and> (\<forall>cfg. Matcher ''https://github.com/acme/widget/issues/7'' cfg
            = Return ('''', '''', '''',
                Some \<lparr>StatusCode = 400,
                      ErrorMessage = ''Url Matched 'https://github.com*', but didn't match the next matcher''\<rparr>))"
  using Matcher_github_third_segment [of "''acme''" "''widget''" "''releases''" "''/download/v1/w.tgz''"]
    Matcher_github_third_segment [of "''acme''" "''widget''" "''git-upload-pack''" "''''"]
    Matcher_github_third_segment [of "''acme''" "''widget''" "''issues''" "''/7''"]
  by simp

section \<open>The branch of Matcher for https://api.github.com/\<close>

lemma api_prefix:
  "\<not> HasPrefix (''https://api.github.com/'' @ x) ''https://github.com''"
  "\<not> HasPrefix (''https://api.github.com/'' @ x) ''https://raw''"
  "\<not> HasPrefix (''https://api.github.com/'' @ x) ''https://gist''"
  "HasPrefix (''https://api.github.com/'' @ x) ''https://api.github.com/''"
  "TrimPrefix (''https://api.github.com/'' @ x) ''https://api.github.com/'' = x"
  by (simp_all add: HasPrefix_def TrimPrefix_def)

lemma Matcher_api:
  "Matcher (''https://api.github.com/'' @ x) cfg =
       (let parts = Split x CHR ''/''
        in go_bind (index parts 0 (\<lambda>p0.
                   if p0 = ''repos''
                   then index parts 1 (\<lambda>user. index parts 2 (\<lambda>repo. Return (user, repo)))
                   else Return ('''', '''')))
             (\<lambda>(user, repo).
           go_bind (index parts 0 (\<lambda>p0.
                   if p0 = ''users''
                   then index parts 1 (\<lambda>user. Return (user, repo))
                   else Return (user, repo)))
             (\<lambda>(user, repo).
           if \<not> ForceAllowApi (Auth cfg) then
             if Method (Auth cfg) \<noteq> ''header'' \<or> \<not> Enabled (Auth cfg) then
               fail 403 ''AuthHeader Unavailable, Need to open header auth to enable api proxy''
             else Return (user, repo, ''api'', None)
           else Return (user, repo, ''api'', None))))"
  unfolding Matcher_def Let_def
  by (simp only: api_prefix if_True if_False)

text \<open>
  The branch on a remainder with the segments that it indexes: behind
  \<^verbatim>\<open>repos/<owner>/<repo>\<close> and behind \<^verbatim>\<open>users/<owner>\<close> the gate decides. With
  forceAllowApi, or with the method \<^verbatim>\<open>header\<close> enabled, the result is the matcher
  \<^verbatim>\<open>api\<close> with the owner (and the repo); otherwise it is the error of status 403.
\<close>

lemma Matcher_api_gate:
  assumes "CHR ''/'' \<notin> set owner" and "CHR ''/'' \<notin> set repo"
    and "rest = [] \<or> (\<exists>more. rest = CHR ''/'' # more)"
  shows "Matcher (''https://api.github.com/repos/'' @ owner @ ''/'' @ repo @ rest) cfg =
     (if ForceAllowApi (Auth cfg) \<or> (Method (Auth cfg) = ''header'' \<and> Enabled (Auth cfg))
      then Return (owner, repo, ''api'', None)
      else Return ('''', '''', '''',
             Some \<lparr>StatusCode = 403,
                   ErrorMessage = ''AuthHeader Unavailable, Need to open header auth to enable api proxy''\<rparr>))"
    and "Matcher (''https://api.github.com/users/'' @ owner @ rest) cfg =
     (if ForceAllowApi (Auth cfg) \<or> (Method (Auth cfg) = ''header'' \<and> Enabled (Auth cfg))
      then Return (owner, '''', ''api'', None)
      else Return ('''', '''', '''',
             Some \<lparr>StatusCode = 403,
                   ErrorMessage = ''AuthHeader Unavailable, Need to open header auth to enable api proxy''\<rparr>))"
proof -
  obtain ps where ps: "Split (repo @ rest) CHR ''/'' = repo # ps"
    using Split_third_segment [OF assms(2,3)] by blast
  obtain qs where qs: "Split (owner @ rest) CHR ''/'' = owner # qs"
    using Split_third_segment [OF assms(1,3)] by blast
  have r: "Split (''repos/'' @ owner @ ''/'' @ repo @ rest) CHR ''/'' = ''repos'' # owner # repo # ps"
    using Split_sep [of "CHR ''/''" "''repos''" "owner @ ''/'' @ repo @ rest"]
      Split_sep [of "CHR ''/''" owner "repo @ rest"] assms(1) ps
    by simp
  have u: "Split (''users/'' @ owner @ rest) CHR ''/'' = ''users'' # owner # qs"
    using Split_sep [of "CHR ''/''" "''users''" "owner @ rest"] qs
    by simp
  have 1: "Matcher (''https://api.github.com/'' @ (''repos/'' @ owner @ ''/'' @ repo @ rest)) cfg =
     (if ForceAllowApi (Auth cfg) \<or> (Method (Auth cfg) = ''header'' \<and> Enabled (Auth cfg))
      then Return (owner, repo, ''api'', None)
      else Return ('''', '''', '''',
             Some \<lparr>StatusCode = 403,
                   ErrorMessage = ''AuthHeader Unavailable, Need to open header auth to enable api proxy''\<rparr>))"
    unfolding Matcher_api Let_def r
    by (simp add: index_def go_bind_def fail_def NewErrorWithStatusLookup_def)
  have 2: "Matcher (''https://api.github.com/'' @ (''users/'' @ owner @ rest)) cfg =
     (if ForceAllowApi (Auth cfg) \<or> (Method (Auth cfg) = ''header'' \<and> Enabled (Auth cfg))
      then Return (owner, '''', ''api'', None)
      else Return ('''', '''', '''',
             Some \<lparr>StatusCode = 403,
                   ErrorMessage = ''AuthHeader Unavailable, Need to open header auth to enable api proxy''\<rparr>))"
    unfolding Matcher_api Let_def u
    by (simp add: index_def go_bind_def fail_def NewErrorWithStatusLookup_def)
  from 1 show "Matcher (''https://api.github.com/repos/'' @ owner @ ''/'' @ repo @ rest) cfg =
     (if ForceAllowApi (Auth cfg) \<or> (Method (Auth cfg) = ''header'' \<and> Enabled (Auth cfg))
      then Return (owner, repo, ''api'', None)
      else Return ('''', '''', '''',
             Some \<lparr>StatusCode = 403,
                   ErrorMessage = ''AuthHeader Unavailable, Need to open header auth to enable api proxy''\<rparr>))"
    by simp
  from 2 show "Matcher (''https://api.github.com/users/'' @ owner @ rest) cfg =
     (if ForceAllowApi (Auth cfg) \<or> (Method (Auth cfg) = ''header'' \<and> Enabled (Auth cfg))
      then Return (owner, '''', ''api'', None)
      else Return ('''', '''', '''',
             Some \<lparr>StatusCode = 403,
                   ErrorMessage = ''AuthHeader Unavailable, Need to open header auth to enable api proxy''\<rparr>))"
    by simp
qed

text \<open>
  C2. Matcher is not total. For \<^verbatim>\<open>https://api.github.com/repos\<close> the split gives the one
  part \<^verbatim>\<open>repos\<close>, and \<^verbatim>\<open>parts[1]\<close> is out of range: the call panics, whatever the
  configuration. The same holds for \<^verbatim>\<open>https://api.github.com/users\<close> and, at \<^verbatim>\<open>parts[2]\<close>,
  for \<^verbatim>\<open>https://api.github.com/repos/acme\<close>. The other three branches check the number of
  parts before they index.
\<close>

theorem Matcher_api_panics:
  "Matcher ''https://api.github.com/repos'' cfg = Panic
   \<and> Matcher ''https://api.github.com/users'' cfg = Panic
   \<and> Matcher ''https://api.github.com/repos/acme'' cfg = Panic"
  by code_simp

theorem Matcher_api_panics_witness:
  "Matcher ''https://api.github.com/repos''
     \<lparr>Auth = \<lparr>Method = ''header'', Enabled = True, ForceAllowApi = False\<rparr>,
      Shell = \<lparr>RewriteAPI = False\<rparr>\<rparr> = Panic"
  using Matcher_api_panics
    [of "\<lparr>Auth = \<lparr>Method = ''header'', Enabled = True, ForceAllowApi = False\<rparr>,
          Shell = \<lparr>RewriteAPI = False\<rparr>\<rparr>"]
  by simp

text \<open>
  C3. The authorization gate is reached only after the indexing. At
  \<^verbatim>\<open>https://api.github.com/repos\<close> the call panics with forceAllowApi set, where the
  specification promises the matcher \<^verbatim>\<open>api\<close>, and it panics with forceAllowApi unset and a method
  other than \<^verbatim>\<open>header\<close>, where the specification promises the error of status 403.
\<close>

theorem Matcher_api_gate_not_reached:
  "Matcher ''https://api.github.com/repos''
     \<lparr>Auth = \<lparr>Method = m, Enabled = e, ForceAllowApi = True\<rparr>, Shell = sh\<rparr> = Panic
   \<and> Matcher ''https://api.github.com/repos''
     \<lparr>Auth = \<lparr>Method = ''parameters'', Enabled = e', ForceAllowApi = False\<rparr>, Shell = sh\<rparr> = Panic"
  by code_simp

theorem Matcher_api_gate_not_reached_witness:
  "Matcher ''https://api.github.com/repos''
     \<lparr>Auth = \<lparr>Method = ''header'', Enabled = True, ForceAllowApi = True\<rparr>,
      Shell = \<lparr>RewriteAPI = False\<rparr>\<rparr> = Panic
   \<and> Matcher ''https://api.github.com/repos''
     \<lparr>Auth = \<lparr>Method = ''parameters'', Enabled = False, ForceAllowApi = False\<rparr>,
      Shell = \<lparr>RewriteAPI = False\<rparr>\<rparr> = Panic"
  using Matcher_api_gate_not_reached [of "''header''" True "\<lparr>RewriteAPI = False\<rparr>" False]
  by simp

text \<open>
  C4. A path under \<^verbatim>\<open>https://github.com\<close> whose remainder, after one leading slash, splits
  into exactly two parts is answered by the error of status 400: the check
  \<^verbatim>\<open>len(parts) <= 2\<close> returns before owner and repo are read. No result with an empty
  matcher is returned for it.
\<close>

theorem Matcher_github_two_segments:
  assumes "HasPrefix rawPath ''https://github.com''"
    and "length (Split (TrimPrefix (TrimPrefix rawPath ''https://github.com'') ''/'') CHR ''/'') = 2"
  shows "Matcher rawPath cfg =
     Return ('''', '''', '''',
       Some \<lparr>StatusCode = 400,
             ErrorMessage = ''Not enough parts in path after matching 'https://github.com*'' @ [CHR 0x27]\<rparr>)"
proof -
  have t: "(if HasPrefix r ''/'' then TrimPrefix r ''/'' else r) = TrimPrefix r ''/''" for r
    by (simp add: TrimPrefix_def)
  show ?thesis
    unfolding Matcher_github [OF assms(1)] Let_def t
    using assms(2) by (simp add: fail_def NewErrorWithStatusLookup_def)
qed

theorem Matcher_github_two_segments_witness:
  "\<forall>cfg. Matcher ''https://github.com/acme/widget'' cfg =
     Return ('''', '''', '''',
       Some \<lparr>StatusCode = 400,
             ErrorMessage = ''Not enough parts in path after matching 'https://github.com*'' @ [CHR 0x27]\<rparr>)"
proof
  fix cfg
  have p: "HasPrefix ''https://github.com/acme/widget'' ''https://github.com''"
    by (simp add: HasPrefix_def)
  have "Split ''acme/widget'' CHR ''/'' = [''acme'', ''widget'']"
    using Split_sep [of "CHR ''/''" "''acme''" "''widget''"] Split_none [of "CHR ''/''" "''widget''"]
    by simp
  then have l: "length (Split (TrimPrefix (TrimPrefix ''https://github.com/acme/widget''
      ''https://github.com'') ''/'') CHR ''/'') = 2"
    by (simp add: TrimPrefix_def HasPrefix_def)
  show "Matcher ''https://github.com/acme/widget'' cfg =
     Return ('''', '''', '''',
       Some \<lparr>StatusCode = 400,
             ErrorMessage = ''Not enough parts in path after matching 'https://github.com*'' @ [CHR 0x27]\<rparr>)"
    using Matcher_github_two_segments [OF p l] .
qed

theorem Matcher_github_two_segments_counterexample:
  "Matcher ''https://github.com/acme/widget''
     \<lparr>Auth = \<lparr>Method = ''header'', Enabled = True, ForceAllowApi = False\<rparr>,
      Shell = \<lparr>RewriteAPI = False\<rparr>\<rparr>
     \<noteq> Return (''acme'', ''widget'', '''', None)
   \<and> Matcher ''https://github.com/acme/widget''
     \<lparr>Auth = \<lparr>Method = ''header'', Enabled = True, ForceAllowApi = False\<rparr>,
      Shell = \<lparr>RewriteAPI = False\<rparr>\<rparr>
     = Return ('''', '''', '''',
         Some \<lparr>StatusCode = 400,
               ErrorMessage = ''Not enough parts in path after matching 'https://github.com*''
                 @ [CHR 0x27]\<rparr>)"
  by code_simp

section \<open>The rewriter\<close>

lemma EditorMatcher_spec:
  "EditorMatcher url cfg = (isEligibleForRewrite url (RewriteAPI (Shell cfg)), None)"
  by (simp add: EditorMatcher_def isEligibleForRewrite_def HasPrefix_prefix)

lemma prefix_https:
  assumes "prefix (''https://'' @ q) url" and "q \<noteq> []" and "hd q \<noteq> CHR ''h''"
  shows "TrimPrefix (TrimPrefix url ''https://'') ''http://'' = strip_scheme_once url"
proof -
  obtain r where u: "url = ''https://'' @ q @ r"
    using assms(1) by (auto simp: prefix_def)
  obtain c q' where qq: "q = c # q'"
    using assms(2) by (cases q) auto
  have 1: "TrimPrefix url ''https://'' = q @ r"
    unfolding u by (simp add: TrimPrefix_def HasPrefix_def)
  have 2: "\<not> HasPrefix (q @ r) ''http://''"
    using assms(3) qq by (simp add: HasPrefix_def)
  have 3: "strip_scheme_once url = q @ r"
    unfolding u by (simp add: strip_scheme_once_def)
  show ?thesis
    unfolding 1 3 using 2 by (simp add: TrimPrefix_def)
qed

lemma eligible_strip:
  assumes "isEligibleForRewrite url b"
  shows "TrimPrefix (TrimPrefix url ''https://'') ''http://'' = strip_scheme_once url"
proof -
  from assms consider
      "prefix (''https://'' @ ''github.com'') url"
    | "prefix (''https://'' @ ''raw.githubusercontent.com'') url"
    | "prefix (''https://'' @ ''raw.github.com'') url"
    | "prefix (''https://'' @ ''gist.githubusercontent.com'') url"
    | "prefix (''https://'' @ ''gist.github.com'') url"
    | "prefix (''https://'' @ ''api.github.com'') url"
    unfolding isEligibleForRewrite_def by auto
  then show ?thesis
    by cases (erule prefix_https, simp, simp)+
qed

lemma modifyURL_spec: "modifyURL url host cfg = spec_rewrite url host (RewriteAPI (Shell cfg))"
  unfolding modifyURL_def spec_rewrite_def EditorMatcher_spec Let_def
  by (simp add: eligible_strip)

text \<open>
  C5. modifyURL computes the rewrite of the specification for every url, host and policy:
  a url that passes the gate becomes \<^verbatim>\<open>https://\<close>, the host, a slash and the url without
  one leading scheme; any other url is returned as it is. The two calls of TrimPrefix in
  the source never both remove something from a url that passes the gate. EditorMatcher
  returns no error, and nothing in modifyURL can panic.
\<close>

theorem modifyURL_refines_spec:
  "modifyURL url host cfg = spec_rewrite url host (RewriteAPI (Shell cfg))
   \<and> snd (EditorMatcher url cfg) = None"
  by (simp add: modifyURL_spec EditorMatcher_spec)

theorem modifyURL_refines_spec_witness:
  "(\<forall>cfg. modifyURL ''https://github.com/a/b'' ''proxy.example'' cfg
           = ''https://proxy.example/github.com/a/b'')
   \<and> (\<forall>cfg. modifyURL ''http://github.com/a/b'' ''proxy.example'' cfg = ''http://github.com/a/b'')"
proof (intro conjI allI)
  fix cfg
  show "modifyURL ''https://github.com/a/b'' ''proxy.example'' cfg
           = ''https://proxy.example/github.com/a/b''"
    using modifyURL_refines_spec [of "''https://github.com/a/b''" "''proxy.example''" cfg]
    by (simp add: spec_rewrite_def isEligibleForRewrite_def strip_scheme_once_def)
next
  fix cfg
  show "modifyURL ''http://github.com/a/b'' ''proxy.example'' cfg = ''http://github.com/a/b''"
    using modifyURL_refines_spec [of "''http://github.com/a/b''" "''proxy.example''" cfg]
    by (simp add: spec_rewrite_def isEligibleForRewrite_def strip_scheme_once_def)
qed

lemma gate_after_host:
  assumes q: "CHR ''/'' \<notin> set q"
    and np: "\<not> prefix (''https://'' @ q) (''https://'' @ host @ ''/'')"
  shows "\<not> prefix (''https://'' @ q) (''https://'' @ host @ ''/'' @ u)"
proof
  assume "prefix (''https://'' @ q) (''https://'' @ host @ ''/'' @ u)"
  then have "prefix q (host @ ''/'' @ u)" by simp
  then consider "prefix q host" | us where "q = host @ us" "prefix us (''/'' @ u)"
    by (auto simp: prefix_append)
  then show False
  proof cases
    case 1
    then have "prefix q (host @ ''/'')" by (rule prefix_prefix)
    with np show False by simp
  next
    case 2
    show False
    proof (cases us)
      case Nil
      with 2 have "prefix q (host @ ''/'')" by simp
      with np show False by simp
    next
      case (Cons c cs)
      with 2 have "c = CHR ''/''" by simp
      with Cons 2 q show False by simp
    qed
  qed
qed

lemma not_eligible_after_host:
  assumes "\<not> isEligibleForRewrite (''https://'' @ host @ ''/'') b"
  shows "\<not> isEligibleForRewrite (''https://'' @ host @ ''/'' @ u) b"
proof -
  have g: "\<not> prefix (''https://'' @ q) (''https://'' @ host @ ''/'') \<Longrightarrow> CHR ''/'' \<notin> set q \<Longrightarrow>
     \<not> prefix (''https://'' @ q) (''https://'' @ host @ ''/'' @ u)" for q
    using gate_after_host by blast
  have 1: "\<not> prefix ''https://github.com'' (''https://'' @ host @ ''/'' @ u)"
    using g [of "''github.com''"] assms by (simp add: isEligibleForRewrite_def)
  have 2: "\<not> prefix ''https://raw.githubusercontent.com'' (''https://'' @ host @ ''/'' @ u)"
    using g [of "''raw.githubusercontent.com''"] assms by (simp add: isEligibleForRewrite_def)
  have 3: "\<not> prefix ''https://raw.github.com'' (''https://'' @ host @ ''/'' @ u)"
    using g [of "''raw.github.com''"] assms by (simp add: isEligibleForRewrite_def)
  have 4: "\<not> prefix ''https://gist.githubusercontent.com'' (''https://'' @ host @ ''/'' @ u)"
    using g [of "''gist.githubusercontent.com''"] assms by (simp add: isEligibleForRewrite_def)
  have 5: "\<not> prefix ''https://gist.github.com'' (''https://'' @ host @ ''/'' @ u)"
    using g [of "''gist.github.com''"] assms by (simp add: isEligibleForRewrite_def)
  have 6: "b \<Longrightarrow> \<not> prefix ''https://api.github.com'' (''https://'' @ host @ ''/'' @ u)"
    using g [of "''api.github.com''"] assms by (simp add: isEligibleForRewrite_def)
  show ?thesis
    unfolding isEligibleForRewrite_def using 1 2 3 4 5 6 by blast
qed

text \<open>
  C6. When the gate of the policy does not match \<^verbatim>\<open>https://<host>/\<close>, a second rewrite
  with the same host and policy changes nothing: a rewritten url starts with
  \<^verbatim>\<open>https://<host>/\<close>, none of the gated prefixes has a slash after its scheme, so the
  gate does not match the rewritten url either. The host \<^verbatim>\<open>proxy.example\<close> is such a host
  under every policy.
\<close>

theorem modifyURL_idempotent:
  assumes "\<not> fst (EditorMatcher (''https://'' @ host @ ''/'') cfg)"
  shows "modifyURL (modifyURL url host cfg) host cfg = modifyURL url host cfg"
proof -
  from assms have n: "\<not> isEligibleForRewrite (''https://'' @ host @ ''/'') (RewriteAPI (Shell cfg))"
    by (simp add: EditorMatcher_spec)
  show ?thesis
  proof (cases "isEligibleForRewrite url (RewriteAPI (Shell cfg))")
    case True
    then have m: "modifyURL url host cfg = ''https://'' @ host @ ''/'' @ strip_scheme_once url"
      by (simp add: modifyURL_spec spec_rewrite_def)
    have "\<not> isEligibleForRewrite (''https://'' @ host @ ''/'' @ strip_scheme_once url)
        (RewriteAPI (Shell cfg))"
      using n by (rule not_eligible_after_host)
    then show ?thesis
      unfolding m by (simp add: modifyURL_spec spec_rewrite_def)
  next
    case False
    then show ?thesis by (simp add: modifyURL_spec spec_rewrite_def)
  qed
qed

theorem modifyURL_idempotent_witness:
  "\<forall>url cfg. modifyURL (modifyURL url ''proxy.example'' cfg) ''proxy.example'' cfg
       = modifyURL url ''proxy.example'' cfg"
proof (intro allI)
  fix url cfg
  have "\<not> fst (EditorMatcher (''https://'' @ ''proxy.example'' @ ''/'') cfg)"
    by (simp add: EditorMatcher_def HasPrefix_def)
  then show "modifyURL (modifyURL url ''proxy.example'' cfg) ''proxy.example'' cfg
       = modifyURL url ''proxy.example'' cfg"
    by (rule modifyURL_idempotent)
qed

section \<open>The deferred functions keep a recorded error\<close>

lemma logError_fields [simp]:
  "err (logError x st) = err st" "delivered (logError x st) = delivered st"
  "closed_with (logError x st) = closed_with st" "written (logError x st) = written st"
  "logs (logError x st) = logs st @ [x]"
  by (simp_all add: logError_def)

lemma pipe_Write_err: "pipe_Write E st b = (n, e, st') \<Longrightarrow> err st' = err st \<and> logs st' = logs st"
  by (auto simp: pipe_Write_def split: option.splits if_splits)

lemma gz_Write_err: "gz_Write E st b = (n, e, st') \<Longrightarrow> err st' = err st \<and> logs st' = logs st"
  by (auto simp: gz_Write_def split: if_splits prod.splits dest: pipe_Write_err)

lemma under_Write_err:
  "under_Write E c st b = (n, e, st') \<Longrightarrow> err st' = err st \<and> logs st' = logs st"
  by (auto simp: under_Write_def split: if_splits dest: pipe_Write_err gz_Write_err)

lemma Flush_err: "err (snd (Flush E c st)) = err st"
  by (auto simp: Flush_def Let_def split: prod.splits dest: under_Write_err)

lemma Flush_logs: "logs (snd (Flush E c st)) = logs st"
  by (auto simp: Flush_def Let_def split: prod.splits dest: under_Write_err)

lemma gz_Close_err: "err (snd (gz_Close E st)) = err st"
  by (auto simp: gz_Close_def split: prod.splits dest: pipe_Write_err)

lemma gz_Close_logs: "logs (snd (gz_Close E st)) = logs st"
  by (auto simp: gz_Close_def split: prod.splits dest: pipe_Write_err)

text \<open>The state between the two halves of the deferred function of lines 272 to 291.\<close>

lemma deferred_writers_split:
  "deferred_writers E c st =
     (case Flush E c (if c = ''gzip'' then
            (case gz_Close E st of
               (Some closeErr, st') \<Rightarrow>
                 (let st' = logError (GzipWriterCloseFailed closeErr) st'
                  in if err st' = None then st'\<lparr>err := Some closeErr\<rparr> else st')
             | (None, st') \<Rightarrow> st')
          else st) of
        (Some flushErr, st2) \<Rightarrow>
          (let st2 = logError (WriterFlushFailed flushErr) st2
           in if err st2 = None then st2\<lparr>err := Some flushErr\<rparr> else st2)
      | (None, st2) \<Rightarrow> st2)"
  by (simp add: deferred_writers_def deferred_gzip_close_def deferred_flush_def Let_def)

lemma flush_half_keeps:
  assumes "err st1 = Some e"
  shows "err (case Flush E c st1 of
        (Some flushErr, st2) \<Rightarrow>
          (let st2 = logError (WriterFlushFailed flushErr) st2
           in if err st2 = None then st2\<lparr>err := Some flushErr\<rparr> else st2)
      | (None, st2) \<Rightarrow> st2) = Some e"
  using assms Flush_err [of E c st1]
  by (auto simp: Let_def split: prod.splits option.splits)

lemma flush_half_logs:
  "set (logs st1) \<subseteq> set (logs (case Flush E c st1 of
        (Some flushErr, st2) \<Rightarrow>
          (let st2 = logError (WriterFlushFailed flushErr) st2
           in if err st2 = None then st2\<lparr>err := Some flushErr\<rparr> else st2)
      | (None, st2) \<Rightarrow> st2))"
  using Flush_logs [of E c st1]
  by (auto simp: Let_def split: prod.splits option.splits)

lemma deferred_writers_keeps:
  assumes "err st = Some e"
  shows "err (deferred_writers E c st) = Some e"
proof -
  have "err (if c = ''gzip'' then
            (case gz_Close E st of
               (Some closeErr, st') \<Rightarrow>
                 (let st' = logError (GzipWriterCloseFailed closeErr) st'
                  in if err st' = None then st'\<lparr>err := Some closeErr\<rparr> else st')
             | (None, st') \<Rightarrow> st')
          else st) = Some e"
    using assms gz_Close_err [of E st]
    by (auto simp: Let_def split: prod.splits option.splits)
  then show ?thesis
    unfolding deferred_writers_split by (rule flush_half_keeps)
qed

lemma deferred_writers_close_failure:
  assumes "fst (gz_Close E st) = Some closeErr"
  shows "GzipWriterCloseFailed closeErr \<in> set (logs (deferred_writers E ''gzip'' st))"
    and "err st = None \<Longrightarrow> err (deferred_writers E ''gzip'' st) = Some closeErr"
proof -
  obtain st' where g: "gz_Close E st = (Some closeErr, st')"
    using assms by (cases "gz_Close E st") auto
  have e: "err st' = err st" using gz_Close_err [of E st] g by simp
  define st1 where "st1 = (let st' = logError (GzipWriterCloseFailed closeErr) st'
                  in if err st' = None then st'\<lparr>err := Some closeErr\<rparr> else st')"
  have d: "deferred_writers E ''gzip'' st = (case Flush E ''gzip'' st1 of
        (Some flushErr, st2) \<Rightarrow>
          (let st2 = logError (WriterFlushFailed flushErr) st2
           in if err st2 = None then st2\<lparr>err := Some flushErr\<rparr> else st2)
      | (None, st2) \<Rightarrow> st2)"
    unfolding deferred_writers_split st1_def g by simp
  have "GzipWriterCloseFailed closeErr \<in> set (logs st1)"
    by (simp add: st1_def Let_def)
  then show "GzipWriterCloseFailed closeErr \<in> set (logs (deferred_writers E ''gzip'' st))"
    unfolding d using flush_half_logs [of st1 E "''gzip''"] by blast
  show "err (deferred_writers E ''gzip'' st) = Some closeErr" if "err st = None"
  proof -
    have "err st1 = Some closeErr" using that e by (simp add: st1_def Let_def)
    then show ?thesis unfolding d by (rule flush_half_keeps)
  qed
qed

lemma deferred_input_close_fields [simp]:
  "err (deferred_input_close input st) = err st"
  "delivered (deferred_input_close input st) = delivered st"
  "closed_with (deferred_input_close input st) = closed_with st"
  "written (deferred_input_close input st) = written st"
  by (simp_all add: deferred_input_close_def split: option.splits)

lemma deferred_input_close_logs:
  "set (logs st) \<subseteq> set (logs (deferred_input_close input st))"
  by (auto simp: deferred_input_close_def split: option.splits)

lemma deferred_pipe_close_fields [simp]:
  "err (deferred_pipe_close st) = err st"
  "delivered (deferred_pipe_close st) = delivered st"
  "closed_with (deferred_pipe_close st) = Some (err st)"
  "written (deferred_pipe_close st) = written st"
  "logs (deferred_pipe_close st) = logs st"
  by (simp_all add: deferred_pipe_close_def split: option.splits)

lemma drain_closed: "drain (deferred_pipe_close st) = (delivered st, err st)"
  by (simp add: drain_def split: option.splits)

section \<open>The goroutine as a whole\<close>

lemma goroutine_closed_with:
  "closed_with (goroutine E input c host cfg) = Some (err (goroutine E input c host cfg))"
  by (simp add: goroutine_def split: sum.splits prod.splits)

lemma drain_goroutine:
  "drain (goroutine E input c host cfg) =
    (case open_reader E input c of
       Inl e \<Rightarrow> ([], Some e)
     | Inr (rest, end) \<Rightarrow>
         (delivered (deferred_writers E c (body E c host cfg end rest initial)),
          err (deferred_writers E c (body E c host cfg end rest initial))))"
  by (simp add: goroutine_def drain_closed initial_def split: sum.splits prod.splits)

lemma written_goroutine:
  "written (goroutine E input c host cfg) =
    (case open_reader E input c of
       Inl e \<Rightarrow> 0
     | Inr (rest, end) \<Rightarrow> written (deferred_writers E c (body E c host cfg end rest initial)))"
  by (simp add: goroutine_def initial_def split: sum.splits prod.splits)

lemma open_reader_close_result [simp]:
  "open_reader E (input\<lparr>close_result := cr\<rparr>) c = open_reader E input c"
  by (simp add: open_reader_def gzip_NewReader_def)

lemma open_reader_identity:
  "compress \<noteq> ''gzip'' \<Longrightarrow> open_reader E input compress = Inr (content input, ending input)"
  by (simp add: open_reader_def)

lemma goroutine_close_result:
  "err (goroutine E (input\<lparr>close_result := cr\<rparr>) c host cfg) = err (goroutine E input c host cfg)"
  "delivered (goroutine E (input\<lparr>close_result := cr\<rparr>) c host cfg)
     = delivered (goroutine E input c host cfg)"
  by (simp_all add: goroutine_def split: sum.splits prod.splits)

lemma goroutine_logs_close:
  "close_result input = Some ce
     \<Longrightarrow> InputCloseFailed ce \<in> set (logs (goroutine E input c host cfg))"
  by (simp add: goroutine_def deferred_input_close_def split: sum.splits prod.splits)

lemma goroutine_logs_writers:
  assumes "open_reader E input c = Inr (rest, end)"
  shows "set (logs (deferred_writers E c (body E c host cfg end rest initial)))
     \<subseteq> set (logs (goroutine E input c host cfg))"
  using assms deferred_input_close_logs by (simp add: goroutine_def)

section \<open>The return statement among the statements of the goroutine\<close>

lemma return_statement_quiet:
  "err st = None \<Longrightarrow> return_statement (st, r) = (st, Some (written st))"
  by (simp add: return_statement_def)

lemma finish_passes:
  "finish E c host cfg e (passes k E c host cfg e rest st) = body E c host cfg e rest st"
proof (induction k arbitrary: rest st)
  case 0
  show ?case by (simp add: finish_def)
next
  case (Suc k)
  obtain x rest' st' where i: "iteration E c host cfg e rest st = (x, rest', st')"
    by (cases "iteration E c host cfg e rest st") auto
  show ?case
  proof (cases x)
    case None
    have "body E c host cfg e rest st = body E c host cfg e rest' st'"
      unfolding body_def using i None
      by (simp add: loop.simps [of E c host cfg e rest st])
    then show ?thesis
      using i None Suc.IH [of rest' st'] by simp
  next
    case (Some y)
    have "body E c host cfg e rest st = after_loop E c (y, st')"
      unfolding body_def using i Some
      by (simp add: loop.simps [of E c host cfg e rest st])
    then show ?thesis
      using i Some by (simp add: finish_def)
  qed
qed

text \<open>The results when the return statement runs during the loop.\<close>

lemma processLinks_Passes:
  "processLinks (Passes k) E input c host cfg =
    (case open_reader E input c of
       Inl e \<Rightarrow> (([], Some e), 0, None)
     | Inr (rest, end) \<Rightarrow>
         (case passes k E c host cfg end rest initial of
            (x, rest', st') \<Rightarrow>
              ((delivered (deferred_writers E c
                   (finish E c host cfg end (x, rest', st'\<lparr>err := None\<rparr>))),
                err (deferred_writers E c
                   (finish E c host cfg end (x, rest', st'\<lparr>err := None\<rparr>)))),
               written st', None)))"
  by (simp add: processLinks_def goroutine_and_return_def return_at_def return_statement_def
      deferred_writers_def drain_closed initial_def Let_def split: sum.splits prod.splits)

text \<open>The results when the return statement runs between the body and the deferred
  functions.\<close>

lemma processLinks_BeforeDeferred:
  "processLinks BeforeDeferred E input c host cfg =
    (case open_reader E input c of
       Inl e \<Rightarrow> (([], None), 0, None)
     | Inr (rest, end) \<Rightarrow>
         ((delivered (deferred_writers E c ((body E c host cfg end rest initial)\<lparr>err := None\<rparr>)),
           err (deferred_writers E c ((body E c host cfg end rest initial)\<lparr>err := None\<rparr>))),
          written (body E c host cfg end rest initial), None))"
  by (simp add: processLinks_def goroutine_and_return_def return_at_def return_statement_def
      deferred_writers_def drain_closed initial_def Let_def split: sum.splits prod.splits)

text \<open>The results when \<^verbatim>\<open>gzip.NewReader\<close> fails, under every schedule.\<close>

lemma processLinks_no_reader:
  assumes "open_reader E input c = Inl e"
  shows "processLinks s E input c host cfg =
     (([], if s = BeforeDeferred \<or> s = BetweenWriters \<or> s = AfterWriters
              \<or> s = AfterInputClose then None else Some e),
      0, None)"
  using assms
  by (cases s)
     (simp_all add: processLinks_def goroutine_and_return_def return_at_def return_statement_def
      drain_def initial_def Let_def deferred_pipe_close_def)

text \<open>A run that records no error is the same under every schedule.\<close>

lemma goroutine_and_return_quiet:
  assumes o: "open_reader E input c = Inr (rest, end)"
    and p: "\<And>k. err (snd (snd (passes k E c host cfg end rest initial))) = None"
    and b: "err (deferred_writers E c (body E c host cfg end rest initial)) = None"
  shows "fst (goroutine_and_return s E input c host cfg) = goroutine E input c host cfg"
proof -
  define B where "B = body E c host cfg end rest initial"
  define G where "G = deferred_gzip_close E c B"
  define D where "D = deferred_flush E c G"
  have g: "goroutine E input c host cfg = deferred_pipe_close (deferred_input_close input D)"
    by (simp add: goroutine_def o B_def G_def D_def deferred_writers_def)
  have d0: "err D = None" using b by (simp add: D_def G_def B_def deferred_writers_def)
  have g0: "err G = None"
  proof (cases "err G")
    case None
    then show ?thesis .
  next
    case (Some e)
    then have "err D = Some e"
      unfolding D_def deferred_flush_def by (rule flush_half_keeps)
    with d0 show ?thesis by simp
  qed
  have b0: "err B = None"
  proof (cases "err B")
    case None
    then show ?thesis .
  next
    case (Some e)
    then have "err (deferred_writers E c B) = Some e" by (rule deferred_writers_keeps)
    with b show ?thesis by (simp add: B_def)
  qed
  show ?thesis
  proof (cases s)
    case (Passes k)
    obtain x rest' st' where ps: "passes k E c host cfg end rest initial = (x, rest', st')"
      by (cases "passes k E c host cfg end rest initial") auto
    have e: "err st' = None" using p [of k] ps by simp
    have f: "finish E c host cfg end (x, rest', st') = B"
      using finish_passes [of E c host cfg "end" k rest initial] ps by (simp add: B_def)
    show ?thesis
      unfolding g
      by (simp add: goroutine_and_return_def o Passes ps return_statement_quiet [OF e] f
          return_at_def G_def D_def Let_def)
  next
    case BeforeDeferred
    show ?thesis
      unfolding g
      by (simp add: goroutine_and_return_def o BeforeDeferred return_at_def
          return_statement_quiet [OF b0] B_def [symmetric] G_def D_def Let_def)
  next
    case BetweenWriters
    show ?thesis
      unfolding g
      by (simp add: goroutine_and_return_def o BetweenWriters return_at_def
          return_statement_quiet [OF g0] B_def [symmetric] G_def [symmetric] D_def Let_def)
  next
    case AfterWriters
    show ?thesis
      unfolding g
      by (simp add: goroutine_and_return_def o AfterWriters return_at_def
          return_statement_quiet [OF d0] B_def [symmetric] G_def [symmetric]
          D_def [symmetric] Let_def)
  next
    case AfterInputClose
    have "err (deferred_input_close input D) = None" using d0 by simp
    then show ?thesis
      unfolding g
      by (simp add: goroutine_and_return_def o AfterInputClose return_at_def
          return_statement_quiet B_def [symmetric] G_def [symmetric] D_def [symmetric] Let_def)
  next
    case AfterClose
    have "err (deferred_pipe_close (deferred_input_close input D)) = None" using d0 by simp
    then show ?thesis
      unfolding g
      by (simp add: goroutine_and_return_def o AfterClose return_at_def
          return_statement_quiet B_def [symmetric] G_def [symmetric] D_def [symmetric] Let_def)
  qed
qed

section \<open>Lines and the end of the input\<close>

lemma ReadString_line:
  assumes "CHR 0x0A \<in> set c"
  shows "ReadString (c @ tail) e =
     (takeWhile (\<lambda>x. x \<noteq> CHR 0x0A) c @ [CHR 0x0A], None,
      tl (dropWhile (\<lambda>x. x \<noteq> CHR 0x0A) c) @ tail)"
proof -
  from assms have t:
    "takeWhile (\<lambda>x. x \<noteq> CHR 0x0A) (c @ tail) = takeWhile (\<lambda>x. x \<noteq> CHR 0x0A) c"
    by (simp add: takeWhile_append1)
  have "dropWhile (\<lambda>x. x \<noteq> CHR 0x0A) c \<noteq> []"
    using assms by (simp add: dropWhile_eq_Nil_conv)
  moreover have "hd (dropWhile (\<lambda>x. x \<noteq> CHR 0x0A) c) = CHR 0x0A"
    using hd_dropWhile [of "\<lambda>x. x \<noteq> CHR 0x0A" c] calculation by simp
  ultimately obtain r where r: "dropWhile (\<lambda>x. x \<noteq> CHR 0x0A) c = CHR 0x0A # r"
    by (cases "dropWhile (\<lambda>x. x \<noteq> CHR 0x0A) c") auto
  from assms have d:
    "dropWhile (\<lambda>x. x \<noteq> CHR 0x0A) (c @ tail) = dropWhile (\<lambda>x. x \<noteq> CHR 0x0A) c @ tail"
    by (simp add: dropWhile_append1)
  show ?thesis
    unfolding ReadString_def t d r by simp
qed

lemma ReadString_end:
  assumes "CHR 0x0A \<notin> set c"
  shows "ReadString c e = (c, Some e, [])"
proof -
  from assms have d: "dropWhile (\<lambda>x. x \<noteq> CHR 0x0A) c = []" by auto
  show ?thesis unfolding ReadString_def d by simp
qed

lemma iteration_line:
  assumes "CHR 0x0A \<in> set c"
  shows "iteration E cm host cfg e (c @ tail) st =
    (case iteration E cm host cfg e c st of (x, rest', st') \<Rightarrow> (x, rest' @ tail, st'))"
  unfolding iteration_def ReadString_line [OF assms] ReadString_line [OF assms, of "[]", simplified]
  by (simp add: Let_def split: prod.splits option.splits)

lemma iteration_end:
  assumes "CHR 0x0A \<notin> set c"
  shows "iteration E cm host cfg EOF c st = (Some Break, [], st)"
  unfolding iteration_def ReadString_end [OF assms] by simp

lemma loop_tail_gen:
  assumes "CHR 0x0A \<notin> set tail" and "e = EOF"
  shows "loop E cm host cfg e (c @ tail) st = loop E cm host cfg e c st"
  using assms
proof (induction E cm host cfg e c st rule: loop.induct)
  case (1 E cm host cfg e rest st)
  show ?case
  proof (cases "CHR 0x0A \<in> set rest")
    case True
    obtain x rest' st' where i: "iteration E cm host cfg e rest st = (x, rest', st')"
      by (cases "iteration E cm host cfg e rest st") auto
    have it: "iteration E cm host cfg e (rest @ tail) st = (x, rest' @ tail, st')"
      using iteration_line [OF True, of E cm host cfg e tail st] i by simp
    show ?thesis
    proof (cases x)
      case None
      have "loop E cm host cfg e (rest' @ tail) st' = loop E cm host cfg e rest' st'"
        using i None by (intro "1.IH" [OF _ refl refl "1.prems"]) simp
      then show ?thesis
        using i it None
        by (simp add: loop.simps [of E cm host cfg e "rest @ tail" st]
            loop.simps [of E cm host cfg e rest st])
    next
      case (Some a)
      then show ?thesis
        using i it
        by (simp add: loop.simps [of E cm host cfg e "rest @ tail" st]
            loop.simps [of E cm host cfg e rest st])
    qed
  next
    case False
    with "1.prems" have "CHR 0x0A \<notin> set (rest @ tail)" by simp
    then have "iteration E cm host cfg EOF (rest @ tail) st = (Some Break, [], st)"
      by (rule iteration_end)
    moreover have "iteration E cm host cfg EOF rest st = (Some Break, [], st)"
      using False by (rule iteration_end)
    ultimately show ?thesis
      unfolding "1.prems"(2)
      by (simp add: loop.simps [of E cm host cfg EOF "rest @ tail" st]
          loop.simps [of E cm host cfg EOF rest st])
  qed
qed

lemma body_tail:
  "CHR 0x0A \<notin> set tail \<Longrightarrow>
     body E cm host cfg EOF (c @ tail) st = body E cm host cfg EOF c st"
  by (simp add: body_def loop_tail_gen)

lemma goroutine_tail:
  assumes "compress \<noteq> ''gzip''" and "CHR 0x0A \<notin> set tail"
  shows "goroutine E \<lparr>content = c @ tail, ending = EOF, close_result = cr\<rparr> compress host cfg
       = goroutine E \<lparr>content = c, ending = EOF, close_result = cr\<rparr> compress host cfg"
proof -
  have b: "body E compress host cfg EOF (c @ tail) initial = body E compress host cfg EOF c initial"
    using assms(2) by (rule body_tail)
  have d: "deferred_input_close \<lparr>content = c @ tail, ending = EOF, close_result = cr\<rparr> st
      = deferred_input_close \<lparr>content = c, ending = EOF, close_result = cr\<rparr> st" for st
    by (simp add: deferred_input_close_def)
  show ?thesis
    unfolding goroutine_def open_reader_identity [OF assms(1)] d
    by (simp add: b)
qed

lemma gzip_NewReader_bad_magic:
  assumes "take 2 (content input) \<noteq> [CHR 0x1F, CHR 0x8B]"
  shows "gzip_NewReader E input =
     Inl (if length (content input) < 10
          then (if content input \<noteq> [] \<and> ending input = EOF then ErrUnexpectedEOF else ending input)
          else ErrHeader)"
proof (cases "length (content input) < 10")
  case True
  then show ?thesis by (simp add: gzip_NewReader_def)
next
  case False
  then obtain a b r where c: "content input = a # b # r"
    by (cases "content input"; cases "tl (content input)") auto
  with assms have "a \<noteq> CHR 0x1F \<or> b \<noteq> CHR 0x8B" by auto
  with False c show ?thesis by (auto simp: gzip_NewReader_def)
qed

section \<open>Buffered writing, for a consumer that reads to the end\<close>

lemma Flush_identity:
  assumes "wanted E = None" and "c \<noteq> ''gzip''" and "buf_err st = None"
  shows "Flush E c st = (None, st\<lparr>buf := [], delivered := delivered st @ buf st\<rparr>)"
proof (cases "buf st = []")
  case True
  then have "st\<lparr>buf := [], delivered := delivered st @ buf st\<rparr> = st" by simp
  then show ?thesis using assms True by (simp add: Flush_def)
next
  case False
  then show ?thesis
    using assms by (simp add: Flush_def under_Write_def pipe_Write_def)
qed

lemma WriteString_identity:
  assumes "wanted E = None" and "c \<noteq> ''gzip''" and "buf_err st = None"
  shows "\<exists>d b. WriteString E c st s nn = (nn + length s, None, st\<lparr>buf := b, delivered := d\<rparr>)
           \<and> d @ b = delivered st @ buf st @ s"
  using assms
proof (induction E c st s nn rule: WriteString.induct)
  case (1 E c st s nn)
  show ?case
  proof (cases "Available st < length s")
    case True
    define n where "n = min (Available st) (length s)"
    define st1 where "st1 = st\<lparr>buf := buf st @ take n s\<rparr>"
    define st2 where "st2 = snd (Flush E c st1)"
    have e1: "buf_err st1 = None" using "1.prems"(3) by (simp add: st1_def)
    have f: "Flush E c st1 = (None, st1\<lparr>buf := [], delivered := delivered st1 @ buf st1\<rparr>)"
      using "1.prems"(1,2) e1 by (rule Flush_identity)
    have s2: "st2 = st\<lparr>buf := [], delivered := delivered st @ buf st @ take n s\<rparr>"
      unfolding st2_def f by (simp add: st1_def)
    have e2: "buf_err st2 = None" using "1.prems"(3) by (simp add: s2)
    from "1.IH" [OF _ n_def st1_def st2_def "1.prems"(1,2) e2] True "1.prems"(3)
    obtain d b where r: "WriteString E c st2 (drop n s) (nn + n)
          = (nn + n + length (drop n s), None, st2\<lparr>buf := b, delivered := d\<rparr>)"
      and db: "d @ b = delivered st2 @ buf st2 @ drop n s"
      by auto
    have w: "WriteString E c st s nn = WriteString E c st2 (drop n s) (nn + n)"
      using True "1.prems"(3)
      by (subst WriteString.simps) (simp add: Let_def n_def st1_def st2_def)
    have nl: "n \<le> length s" by (simp add: n_def)
    have "st2\<lparr>buf := b, delivered := d\<rparr> = st\<lparr>buf := b, delivered := d\<rparr>"
      by (simp add: s2)
    moreover have "d @ b = delivered st @ buf st @ s"
      using db by (simp add: s2)
    ultimately show ?thesis
      unfolding w r using nl by auto
  next
    case False
    then have "WriteString E c st s nn = (nn + length s, None, st\<lparr>buf := buf st @ s\<rparr>)"
      using "1.prems"(3) by (subst WriteString.simps) simp
    moreover have "st\<lparr>buf := buf st @ s\<rparr> = st\<lparr>buf := buf st @ s, delivered := delivered st\<rparr>"
      by simp
    ultimately show ?thesis by (intro exI [of _ "delivered st"] exI [of _ "buf st @ s"]) simp
  qed
qed

lemma complete_lines_end: "CHR 0x0A \<notin> set c \<Longrightarrow> complete_lines c = []"
  by (simp add: complete_lines_def Split_none)

lemma complete_lines_line:
  assumes "CHR 0x0A \<notin> set l"
  shows "complete_lines (l @ CHR 0x0A # r) = (l @ [CHR 0x0A]) # complete_lines r"
  using assms Split_not_Nil [of r "CHR 0x0A"]
  by (simp add: complete_lines_def Split_sep)

lemma split_at_line:
  assumes "CHR 0x0A \<in> set c"
  shows "c = takeWhile (\<lambda>x. x \<noteq> CHR 0x0A) c @ CHR 0x0A # tl (dropWhile (\<lambda>x. x \<noteq> CHR 0x0A) c)"
proof -
  have "dropWhile (\<lambda>x. x \<noteq> CHR 0x0A) c \<noteq> []"
    using assms by (simp add: dropWhile_eq_Nil_conv)
  moreover have "hd (dropWhile (\<lambda>x. x \<noteq> CHR 0x0A) c) = CHR 0x0A"
    using hd_dropWhile [of "\<lambda>x. x \<noteq> CHR 0x0A" c] calculation by simp
  ultimately have "dropWhile (\<lambda>x. x \<noteq> CHR 0x0A) c = CHR 0x0A # tl (dropWhile (\<lambda>x. x \<noteq> CHR 0x0A) c)"
    by (cases "dropWhile (\<lambda>x. x \<noteq> CHR 0x0A) c") auto
  then show ?thesis
    using takeWhile_dropWhile_id [of "\<lambda>x. x \<noteq> CHR 0x0A" c] by simp
qed

lemma rewritten_lines_line:
  assumes "CHR 0x0A \<in> set c"
  shows "rewritten_lines c host cfg =
     ReplaceAllStringFunc (takeWhile (\<lambda>x. x \<noteq> CHR 0x0A) c @ [CHR 0x0A])
         (\<lambda>originalURL. modifyURL originalURL host cfg)
     @ rewritten_lines (tl (dropWhile (\<lambda>x. x \<noteq> CHR 0x0A) c)) host cfg"
proof -
  have n: "CHR 0x0A \<notin> set (takeWhile (\<lambda>x. x \<noteq> CHR 0x0A) c)"
    by (auto dest: set_takeWhileD)
  show ?thesis
    unfolding rewritten_lines_def
    by (subst split_at_line [OF assms]) (simp add: complete_lines_line [OF n])
qed

lemma loop_identity:
  assumes "wanted E = None" and "c \<noteq> ''gzip''" and "buf_err st = None"
  shows "\<exists>d b. loop E c host cfg e rest st =
           (if e = EOF then Break else Returned,
            st\<lparr>buf := b, delivered := d,
               written := written st + int (length (rewritten_lines rest host cfg)),
               err := (if e = EOF then err st else Some (ReadLineError e))\<rparr>)
         \<and> d @ b = delivered st @ buf st @ rewritten_lines rest host cfg"
  using assms
proof (induction E c host cfg e rest st rule: loop.induct)
  case (1 E c host cfg e rest st)
  show ?case
  proof (cases "CHR 0x0A \<in> set rest")
    case True
    define line where "line = takeWhile (\<lambda>x. x \<noteq> CHR 0x0A) rest @ [CHR 0x0A]"
    define rest' where "rest' = tl (dropWhile (\<lambda>x. x \<noteq> CHR 0x0A) rest)"
    define out where "out = ReplaceAllStringFunc line (\<lambda>originalURL. modifyURL originalURL host cfg)"
    have rs: "ReadString rest e = (line, None, rest')"
      using ReadString_line [OF True, of "[]" e] by (simp add: line_def rest'_def)
    obtain d b where w: "WriteString E c st out 0 = (0 + length out, None, st\<lparr>buf := b, delivered := d\<rparr>)"
      and db: "d @ b = delivered st @ buf st @ out"
      using WriteString_identity [OF "1.prems", of out 0] by blast
    define st' where "st' = st\<lparr>buf := b, delivered := d, written := written st + int (length out)\<rparr>"
    have it: "iteration E c host cfg e rest st = (None, rest', st')"
      unfolding iteration_def rs using w by (simp add: Let_def out_def st'_def)
    have e': "buf_err st' = None" using "1.prems"(3) by (simp add: st'_def)
    obtain d2 b2 where l: "loop E c host cfg e rest' st' =
           (if e = EOF then Break else Returned,
            st'\<lparr>buf := b2, delivered := d2,
               written := written st' + int (length (rewritten_lines rest' host cfg)),
               err := (if e = EOF then err st' else Some (ReadLineError e))\<rparr>)"
      and db2: "d2 @ b2 = delivered st' @ buf st' @ rewritten_lines rest' host cfg"
      using "1.IH" [OF it [symmetric] refl refl "1.prems"(1,2) e'] by blast
    have rw: "rewritten_lines rest host cfg = out @ rewritten_lines rest' host cfg"
      using rewritten_lines_line [OF True] by (simp add: out_def line_def rest'_def)
    have "loop E c host cfg e rest st = loop E c host cfg e rest' st'"
      by (subst loop.simps) (simp add: it)
    then show ?thesis
      unfolding l rw using db db2
      by (intro exI [of _ d2] exI [of _ b2]) (simp add: st'_def)
  next
    case False
    then have rs: "ReadString rest e = (rest, Some e, [])" by (rule ReadString_end)
    have it: "iteration E c host cfg e rest st =
        (if e = EOF then (Some Break, [], st) else (Some Returned, [], st\<lparr>err := Some (ReadLineError e)\<rparr>))"
      unfolding iteration_def rs by simp
    have rw: "rewritten_lines rest host cfg = []"
      using False by (simp add: rewritten_lines_def complete_lines_end)
    have "loop E c host cfg e rest st =
        (if e = EOF then (Break, st) else (Returned, st\<lparr>err := Some (ReadLineError e)\<rparr>))"
      by (subst loop.simps) (simp add: it)
    then show ?thesis
      unfolding rw
      by (intro exI [of _ "delivered st"] exI [of _ "buf st"]) simp
  qed
qed

lemma deferred_writers_identity:
  assumes "wanted E = None" and "c \<noteq> ''gzip''" and "buf_err st = None"
  shows "deferred_writers E c st = st\<lparr>buf := [], delivered := delivered st @ buf st\<rparr>"
  unfolding deferred_writers_split using assms by (simp add: Flush_identity)

lemma body_identity:
  assumes "wanted E = None" and "c \<noteq> ''gzip''"
  shows "\<exists>d b. body E c host cfg e rest initial =
           initial\<lparr>buf := b, delivered := d,
               written := int (length (rewritten_lines rest host cfg)),
               err := (if e = EOF then None else Some (ReadLineError e))\<rparr>
         \<and> d @ b = rewritten_lines rest host cfg"
proof -
  have i: "buf_err initial = None" by (simp add: initial_def)
  obtain d b where l: "loop E c host cfg e rest initial =
           (if e = EOF then Break else Returned,
            initial\<lparr>buf := b, delivered := d,
               written := written initial + int (length (rewritten_lines rest host cfg)),
               err := (if e = EOF then err initial else Some (ReadLineError e))\<rparr>)"
    and db: "d @ b = delivered initial @ buf initial @ rewritten_lines rest host cfg"
    using loop_identity [OF assms i, of host cfg e rest] by blast
  have db': "d @ b = rewritten_lines rest host cfg"
    using db by (simp add: initial_def)
  show ?thesis
  proof (cases "e = EOF")
    case True
    have "body E c host cfg e rest initial =
        initial\<lparr>buf := [], delivered := d @ b,
               written := int (length (rewritten_lines rest host cfg)), err := None\<rparr>"
      unfolding body_def after_loop_def l using True assms
      by (simp add: Flush_identity initial_def)
    then show ?thesis
      using True db' by (intro exI [of _ "d @ b"] exI [of _ "[]"]) simp
  next
    case False
    have "body E c host cfg e rest initial =
        initial\<lparr>buf := b, delivered := d,
               written := int (length (rewritten_lines rest host cfg)),
               err := Some (ReadLineError e)\<rparr>"
      unfolding body_def after_loop_def l using False by (simp add: initial_def)
    then show ?thesis
      using False db' by (intro exI [of _ d] exI [of _ b]) simp
  qed
qed

lemma writers_identity:
  assumes "wanted E = None" and "compress \<noteq> ''gzip''"
  shows "deferred_writers E compress (body E compress host cfg e rest initial)
      = initial\<lparr>buf := [], delivered := rewritten_lines rest host cfg,
               written := int (length (rewritten_lines rest host cfg)),
               err := (if e = EOF then None else Some (ReadLineError e))\<rparr>"
proof -
  obtain d b where bd: "body E compress host cfg e rest initial =
           initial\<lparr>buf := b, delivered := d,
               written := int (length (rewritten_lines rest host cfg)),
               err := (if e = EOF then None else Some (ReadLineError e))\<rparr>"
    and db: "d @ b = rewritten_lines rest host cfg"
    using body_identity [OF assms] by blast
  show ?thesis
    unfolding bd using assms db
    by (subst deferred_writers_identity) (simp_all add: initial_def)
qed

lemma identity_output:
  assumes "wanted E = None" and "compress \<noteq> ''gzip''"
  shows "drain (goroutine E input compress host cfg) =
      (rewritten_lines (content input) host cfg,
       if ending input = EOF then None else Some (ReadLineError (ending input)))
    \<and> written (goroutine E input compress host cfg)
        = int (length (rewritten_lines (content input) host cfg))"
proof -
  have 1: "drain (goroutine E input compress host cfg) =
      (rewritten_lines (content input) host cfg,
       if ending input = EOF then None else Some (ReadLineError (ending input)))"
    unfolding drain_goroutine open_reader_identity [OF assms(2)]
    by (simp add: writers_identity [OF assms])
  have 2: "written (goroutine E input compress host cfg)
        = int (length (rewritten_lines (content input) host cfg))"
    unfolding written_goroutine open_reader_identity [OF assms(2)]
    by (simp add: writers_identity [OF assms])
  from 1 2 show ?thesis by simp
qed

text \<open>A pass of the loop records nothing while the input has not ended in an error.\<close>

lemma iteration_identity:
  assumes "wanted E = None" and "c \<noteq> ''gzip''" and "buf_err st = None"
    and i: "iteration E c host cfg EOF rest st = (x, rest', st')"
  shows "err st' = err st \<and> buf_err st' = None"
proof (cases "CHR 0x0A \<in> set rest")
  case True
  define line where "line = takeWhile (\<lambda>x. x \<noteq> CHR 0x0A) rest @ [CHR 0x0A]"
  define out where "out = ReplaceAllStringFunc line (\<lambda>originalURL. modifyURL originalURL host cfg)"
  have rs: "ReadString rest EOF = (line, None, tl (dropWhile (\<lambda>x. x \<noteq> CHR 0x0A) rest))"
    using ReadString_line [OF True, of "[]" EOF] by (simp add: line_def)
  obtain d b where w: "WriteString E c st out 0 = (0 + length out, None, st\<lparr>buf := b, delivered := d\<rparr>)"
    using WriteString_identity [OF assms(1,2,3), of out 0] by blast
  have "st' = st\<lparr>buf := b, delivered := d, written := written st + int (length out)\<rparr>"
    using i unfolding iteration_def rs using w by (simp add: Let_def out_def)
  then show ?thesis using assms(3) by simp
next
  case False
  then have "iteration E c host cfg EOF rest st = (Some Break, [], st)"
    by (rule iteration_end)
  with i assms(3) show ?thesis by simp
qed

lemma passes_identity:
  assumes "wanted E = None" and "c \<noteq> ''gzip''" and "buf_err st = None"
  shows "err (snd (snd (passes k E c host cfg EOF rest st))) = err st
       \<and> buf_err (snd (snd (passes k E c host cfg EOF rest st))) = None"
  using assms(3)
proof (induction k arbitrary: rest st)
  case 0
  then show ?case by simp
next
  case (Suc k)
  obtain x rest' st' where i: "iteration E c host cfg EOF rest st = (x, rest', st')"
    by (cases "iteration E c host cfg EOF rest st") auto
  have s: "err st' = err st \<and> buf_err st' = None"
    using iteration_identity [OF assms(1,2) Suc.prems i] .
  show ?case
  proof (cases x)
    case None
    then show ?thesis
      using i s Suc.IH [of st' rest'] by simp
  next
    case (Some y)
    then show ?thesis
      using i s by simp
  qed
qed

text \<open>
  The output of an input that is not compressed and ends without an error, for a consumer
  that reads to the end: the rewritten lines, then the end of the stream, under every
  schedule.
\<close>

lemma identity_output_scheduled:
  assumes "wanted E = None" and "compress \<noteq> ''gzip''" and "ending input = EOF"
  shows "fst (processLinks s E input compress host cfg)
       = (rewritten_lines (content input) host cfg, None)"
proof -
  have o: "open_reader E input compress = Inr (content input, EOF)"
    using open_reader_identity [OF assms(2), of E input] assms(3) by simp
  have i: "buf_err initial = None" "err initial = None" by (simp_all add: initial_def)
  have p: "err (snd (snd (passes k E compress host cfg EOF (content input) initial))) = None" for k
    using passes_identity [OF assms(1,2) i(1), of k host cfg "content input"] i(2) by simp
  have b: "err (deferred_writers E compress (body E compress host cfg EOF (content input) initial))
      = None"
    by (simp add: writers_identity [OF assms(1,2)])
  have "fst (goroutine_and_return s E input compress host cfg) = goroutine E input compress host cfg"
    using o p b by (rule goroutine_and_return_quiet)
  then have "fst (processLinks s E input compress host cfg)
      = drain (goroutine E input compress host cfg)"
    by (cases "goroutine_and_return s E input compress host cfg") (simp add: processLinks_def)
  then show ?thesis
    using identity_output [OF assms(1,2), of input host cfg] assms(3) by simp
qed

section \<open>No match of the pattern crosses a line feed\<close>

lemma prefix_before_char:
  assumes "c \<notin> set p"
  shows "prefix p (x @ c # r) = prefix p x"
proof
  assume "prefix p (x @ c # r)"
  then consider "prefix p x" | us where "p = x @ us" "prefix us (c # r)"
    by (auto simp: prefix_append)
  then show "prefix p x"
  proof cases
    case 1
    then show ?thesis .
  next
    case 2
    show ?thesis
    proof (cases us)
      case Nil
      with 2 show ?thesis by simp
    next
      case (Cons u us')
      with 2 have "u = c" by simp
      with Cons 2 assms show ?thesis by simp
    qed
  qed
next
  assume "prefix p x"
  then show "prefix p (x @ c # r)" by (rule prefix_prefix)
qed

lemma takeWhile_before_char:
  assumes "\<not> P c"
  shows "takeWhile P (y @ c # r) = takeWhile P y"
  using assms by (induction y) auto

lemma dropWhile_before_char:
  assumes "\<not> P c"
  shows "dropWhile P (y @ c # r) = dropWhile P y @ c # r"
  using assms by (induction y) auto

lemma urlPattern_scheme:
  assumes "prefix p x" and "\<not> url_char c"
  shows "(let after = drop (length p) (x @ c # r)
          in if takeWhile url_char after = [] then None
             else Some (p @ takeWhile url_char after, dropWhile url_char after))
       = (let after = drop (length p) x
          in if takeWhile url_char after = [] then None
             else Some (p @ takeWhile url_char after, dropWhile url_char after @ c # r))"
proof -
  from assms(1) obtain y where x: "x = p @ y" by (auto simp: prefix_def)
  show ?thesis
    unfolding x Let_def
    by (simp add: takeWhile_before_char [of url_char c, OF assms(2)]
        dropWhile_before_char [of url_char c, OF assms(2)])
qed

lemma urlPattern_before_char:
  assumes "\<not> url_char c"
  shows "urlPattern (x @ c # r) =
     (case urlPattern (x @ [c]) of None \<Rightarrow> None | Some (m, a) \<Rightarrow> Some (m, a @ r))"
proof -
  have c: "c \<notin> set ''https://''" "c \<notin> set ''http://''"
    using assms by (auto simp: url_char_def)
  have p1: "HasPrefix (x @ c # r) ''https://'' = prefix ''https://'' x"
    "HasPrefix (x @ [c]) ''https://'' = prefix ''https://'' x"
    unfolding HasPrefix_prefix using prefix_before_char [OF c(1)] by blast+
  have p2: "HasPrefix (x @ c # r) ''http://'' = prefix ''http://'' x"
    "HasPrefix (x @ [c]) ''http://'' = prefix ''http://'' x"
    unfolding HasPrefix_prefix using prefix_before_char [OF c(2)] by blast+
  show ?thesis
  proof (cases "prefix ''https://'' x")
    case True
    have "urlPattern (x @ c # r) = (let after = drop (length ''https://'') (x @ c # r)
          in if takeWhile url_char after = [] then None
             else Some (''https://'' @ takeWhile url_char after, dropWhile url_char after))"
      unfolding urlPattern_def p1 using True by simp
    moreover have "urlPattern (x @ [c]) = (let after = drop (length ''https://'') (x @ [c])
          in if takeWhile url_char after = [] then None
             else Some (''https://'' @ takeWhile url_char after, dropWhile url_char after))"
      unfolding urlPattern_def p1 using True by simp
    ultimately show ?thesis
      unfolding urlPattern_scheme [OF True assms]
      by (simp add: Let_def)
  next
    case False
    note nf = False
    show ?thesis
    proof (cases "prefix ''http://'' x")
      case True
      have "urlPattern (x @ c # r) = (let after = drop (length ''http://'') (x @ c # r)
          in if takeWhile url_char after = [] then None
             else Some (''http://'' @ takeWhile url_char after, dropWhile url_char after))"
        unfolding urlPattern_def p1 p2 using True nf by simp
      moreover have "urlPattern (x @ [c]) = (let after = drop (length ''http://'') (x @ [c])
          in if takeWhile url_char after = [] then None
             else Some (''http://'' @ takeWhile url_char after, dropWhile url_char after))"
        unfolding urlPattern_def p1 p2 using True nf by simp
      ultimately show ?thesis
        unfolding urlPattern_scheme [OF True assms]
        by (simp add: Let_def)
    next
      case False
      then show ?thesis
        unfolding urlPattern_def p1 p2 using nf by simp
    qed
  qed
qed


lemma urlPattern_not_h:
  assumes "c \<noteq> CHR ''h''"
  shows "urlPattern (c # r) = None"
  using assms by (simp add: urlPattern_def HasPrefix_def)

lemma urlPattern_after:
  assumes "urlPattern (x @ [c]) = Some (m, a)" and "\<not> url_char c"
  shows "\<exists>y. a = y @ [c] \<and> length y < length x"
proof -
  have "\<exists>k>0. a = dropWhile url_char (drop k (x @ [c]))
      \<and> takeWhile url_char (drop k (x @ [c])) \<noteq> []"
  proof (cases "HasPrefix (x @ [c]) ''https://''")
    case True
    with assms(1) show ?thesis
      unfolding urlPattern_def Let_def
      by (intro exI [of _ "length ''https://''"]) (auto split: if_splits)
  next
    case False
    with assms(1) show ?thesis
      unfolding urlPattern_def Let_def
      by (intro exI [of _ "length ''http://''"]) (auto split: if_splits)
  qed
  then obtain k where k: "0 < k" "a = dropWhile url_char (drop k (x @ [c]))"
    "takeWhile url_char (drop k (x @ [c])) \<noteq> []" by blast
  have kx: "k < length x"
  proof (rule ccontr)
    assume "\<not> k < length x"
    then have "drop k (x @ [c]) = [] \<or> drop k (x @ [c]) = [c]"
      by (cases "k = length x") auto
    with k(3) assms(2) show False by auto
  qed
  then have d: "drop k (x @ [c]) = drop k x @ [c]" by simp
  have "a = dropWhile url_char (drop k x) @ [c]"
    unfolding k(2) d using dropWhile_before_char [of url_char c "drop k x" "[]", OF assms(2)] .
  moreover have "length (dropWhile url_char (drop k x)) < length x"
    using length_dropWhile_le [of url_char "drop k x"] kx k(1) by simp
  ultimately show ?thesis by blast
qed

lemma ReplaceAllStringFunc_before_char:
  assumes "\<not> url_char c"
  shows "ReplaceAllStringFunc (x @ c # r) repl
       = ReplaceAllStringFunc (x @ [c]) repl @ ReplaceAllStringFunc r repl"
proof (induction "length x" arbitrary: x rule: less_induct)
  case less
  have ch: "c \<noteq> CHR ''h''" using assms by (auto simp: url_char_def)
  show ?case
  proof (cases x)
    case Nil
    then show ?thesis
      by (simp add: ReplaceAllStringFunc.simps urlPattern_not_h [OF ch])
  next
    case (Cons a x')
    show ?thesis
    proof (cases "urlPattern (x @ [c])")
      case None
      then have n: "urlPattern (x @ c # r) = None"
        using urlPattern_before_char [OF assms, of x r] by simp
      have "ReplaceAllStringFunc (x' @ c # r) repl
          = ReplaceAllStringFunc (x' @ [c]) repl @ ReplaceAllStringFunc r repl"
        using less [of x'] Cons by simp
      then show ?thesis
        using None n unfolding Cons by (simp add: ReplaceAllStringFunc.simps)
    next
      case (Some ma)
      obtain m a where ma: "ma = (m, a)" by (cases ma) auto
      obtain y where y: "a = y @ [c]" "length y < length x"
        using urlPattern_after [OF Some [unfolded ma] assms] by blast
      have s: "urlPattern (x @ c # r) = Some (m, y @ c # r)"
        using Some ma y(1) urlPattern_before_char [OF assms, of x r] by simp
      have "ReplaceAllStringFunc (y @ c # r) repl
          = ReplaceAllStringFunc (y @ [c]) repl @ ReplaceAllStringFunc r repl"
        using less [of y] y(2) by simp
      then show ?thesis
        using Some s ma y(1) unfolding Cons by (simp add: ReplaceAllStringFunc.simps)
    qed
  qed
qed

lemma rewritten_lines_whole:
  assumes "c = [] \<or> last c = CHR 0x0A"
  shows "rewritten_lines c host cfg
       = ReplaceAllStringFunc c (\<lambda>originalURL. modifyURL originalURL host cfg)"
  using assms
proof (induction "length c" arbitrary: c rule: less_induct)
  case less
  show ?case
  proof (cases "c = []")
    case True
    then show ?thesis
      by (simp add: rewritten_lines_def complete_lines_end ReplaceAllStringFunc.simps)
  next
    case False
    with less.prems have l: "last c = CHR 0x0A" by simp
    with False have i: "CHR 0x0A \<in> set c" using last_in_set by metis
    define line where "line = takeWhile (\<lambda>x. x \<noteq> CHR 0x0A) c"
    define r where "r = tl (dropWhile (\<lambda>x. x \<noteq> CHR 0x0A) c)"
    have c: "c = line @ CHR 0x0A # r"
      using split_at_line [OF i] by (simp add: line_def r_def)
    have r: "r = [] \<or> last r = CHR 0x0A"
      using l unfolding c by (cases "r = []") auto
    have "length r < length c" unfolding c by simp
    then have ih: "rewritten_lines r host cfg
       = ReplaceAllStringFunc r (\<lambda>originalURL. modifyURL originalURL host cfg)"
      using less.hyps r by blast
    have nu: "\<not> url_char (CHR 0x0A)" by (simp add: url_char_def)
    have "rewritten_lines c host cfg =
        ReplaceAllStringFunc (line @ [CHR 0x0A]) (\<lambda>originalURL. modifyURL originalURL host cfg)
        @ rewritten_lines r host cfg"
      using rewritten_lines_line [OF i] by (simp add: line_def r_def)
    also have "\<dots> = ReplaceAllStringFunc (line @ CHR 0x0A # r)
        (\<lambda>originalURL. modifyURL originalURL host cfg)"
      unfolding ih using ReplaceAllStringFunc_before_char [OF nu, of line r] by simp
    finally show ?thesis using c by simp
  qed
qed

section \<open>Properties of processLinks\<close>

text \<open>
  C7. For the input stream of the one line
  \<^verbatim>\<open>echo https://github.com/acme/widget/raw/main/install.sh\<close> with its line feed, no
  compression, the host \<^verbatim>\<open>px.example\<close> and a consumer that reads to the end, the output
  drains to \<^verbatim>\<open>echo https://px.example/github.com/acme/widget/raw/main/install.sh\<close> with its
  line feed, 67 bytes, and ends without an error, under every policy; the goroutine ends
  with 67 in \<^verbatim>\<open>written\<close>. The second result of processLinks is not this length when
  the \<^verbatim>\<open>return\<close> statement comes before the first pass through the loop: it is 0. It
  is 67 only when the goroutine has made its pass before the \<^verbatim>\<open>return\<close> statement reads
  \<^verbatim>\<open>written\<close>.
\<close>

theorem processLinks_end_to_end:
  "processLinks (Passes 0)
      \<lparr>wanted = None, rclose = rc, gz_body = gb, gz_emit = ge, gz_final = gf\<rparr>
      \<lparr>content = ''echo https://github.com/acme/widget/raw/main/install.sh'' @ [CHR 0x0A],
       ending = EOF, close_result = cr\<rparr> '''' ''px.example'' cfg
    = ((''echo https://px.example/github.com/acme/widget/raw/main/install.sh'' @ [CHR 0x0A], None),
       0, None)
   \<and> int (length (''echo https://px.example/github.com/acme/widget/raw/main/install.sh''
         @ [CHR 0x0A])) = 67
   \<and> written (goroutine \<lparr>wanted = None, rclose = rc, gz_body = gb, gz_emit = ge, gz_final = gf\<rparr>
      \<lparr>content = ''echo https://github.com/acme/widget/raw/main/install.sh'' @ [CHR 0x0A],
       ending = EOF, close_result = cr\<rparr> '''' ''px.example'' cfg) = 67
   \<and> processLinks (Passes 1)
      \<lparr>wanted = None, rclose = rc, gz_body = gb, gz_emit = ge, gz_final = gf\<rparr>
      \<lparr>content = ''echo https://github.com/acme/widget/raw/main/install.sh'' @ [CHR 0x0A],
       ending = EOF, close_result = cr\<rparr> '''' ''px.example'' cfg
    = ((''echo https://px.example/github.com/acme/widget/raw/main/install.sh'' @ [CHR 0x0A], None),
       67, None)"
  unfolding processLinks_Passes written_goroutine
  by code_simp

text \<open>
  C8. The lines that a line feed ends reach the output in their order, each with every
  url of the gate rewritten, and nothing else does: for an input that is not compressed,
  made of such lines \<open>c\<close> followed by a last line \<open>tail\<close> that no line feed ends, a
  consumer that reads to the end drains exactly the rewritten \<open>c\<close>, whatever \<open>tail\<close>
  is and whenever the \<^verbatim>\<open>return\<close> statement runs. \<^verbatim>\<open>ReadString\<close> returns the bytes of
  \<open>tail\<close> together with \<^verbatim>\<open>io.EOF\<close>, and the loop breaks on the error before it looks at
  the line: a last line without a line feed is lost.
\<close>

theorem unterminated_last_line_dropped:
  assumes "wanted E = None" and "compress \<noteq> ''gzip''"
    and "c = [] \<or> last c = CHR 0x0A" and "CHR 0x0A \<notin> set tail"
  shows "fst (processLinks s E \<lparr>content = c @ tail, ending = EOF, close_result = cr\<rparr>
            compress host cfg)
       = (ReplaceAllStringFunc c (\<lambda>originalURL. modifyURL originalURL host cfg), None)"
proof -
  have g: "goroutine E \<lparr>content = c @ tail, ending = EOF, close_result = cr\<rparr> compress host cfg
      = goroutine E \<lparr>content = c, ending = EOF, close_result = cr\<rparr> compress host cfg"
    using assms(2,4) by (rule goroutine_tail)
  have "drain (goroutine E \<lparr>content = c @ tail, ending = EOF, close_result = cr\<rparr> compress host cfg)
      = (rewritten_lines (c @ tail) host cfg, None)"
    using identity_output [OF assms(1,2),
        of "\<lparr>content = c @ tail, ending = EOF, close_result = cr\<rparr>" host cfg]
    by simp
  moreover have "drain (goroutine E \<lparr>content = c, ending = EOF, close_result = cr\<rparr> compress host cfg)
      = (rewritten_lines c host cfg, None)"
    using identity_output [OF assms(1,2),
        of "\<lparr>content = c, ending = EOF, close_result = cr\<rparr>" host cfg]
    by simp
  ultimately have r: "rewritten_lines (c @ tail) host cfg = rewritten_lines c host cfg"
    unfolding g by simp
  have "fst (processLinks s E \<lparr>content = c @ tail, ending = EOF, close_result = cr\<rparr>
            compress host cfg) = (rewritten_lines (c @ tail) host cfg, None)"
    using identity_output_scheduled [OF assms(1,2),
        of "\<lparr>content = c @ tail, ending = EOF, close_result = cr\<rparr>" s host cfg]
    by simp
  then show ?thesis
    unfolding r by (simp add: rewritten_lines_whole [OF assms(3)])
qed

theorem unterminated_last_line_dropped_witness:
  "fst (processLinks (Passes 0)
      \<lparr>wanted = None, rclose = ErrClosedPipe, gz_body = (\<lambda>c e. Inr (c, e)),
       gz_emit = (\<lambda>plain p. p), gz_final = (\<lambda>plain. [])\<rparr>
      \<lparr>content = ''echo one'' @ [CHR 0x0A] @ ''curl https://github.com/a/b/raw/main/x.sh'',
       ending = EOF, close_result = None\<rparr>
      '''' ''px.example''
      \<lparr>Auth = \<lparr>Method = ''header'', Enabled = True, ForceAllowApi = False\<rparr>,
       Shell = \<lparr>RewriteAPI = False\<rparr>\<rparr>)
   = (''echo one'' @ [CHR 0x0A], None)"
proof -
  have 1: "wanted \<lparr>wanted = None, rclose = ErrClosedPipe,
       gz_body = (\<lambda>c e. Inr (c, e)) :: string \<Rightarrow> error \<Rightarrow> error + (string \<times> error),
       gz_emit = (\<lambda>plain p. p), gz_final = (\<lambda>plain. [])\<rparr> = None"
    by simp
  have 2: "'''' \<noteq> ''gzip''" by simp
  have 3: "''echo one'' @ [CHR 0x0A] = [] \<or> last (''echo one'' @ [CHR 0x0A]) = CHR 0x0A"
    by simp
  have 4: "CHR 0x0A \<notin> set ''curl https://github.com/a/b/raw/main/x.sh''" by simp
  have r: "ReplaceAllStringFunc (''echo one'' @ [CHR 0x0A])
      (\<lambda>originalURL. modifyURL originalURL ''px.example''
         \<lparr>Auth = \<lparr>Method = ''header'', Enabled = True, ForceAllowApi = False\<rparr>,
          Shell = \<lparr>RewriteAPI = False\<rparr>\<rparr>) = ''echo one'' @ [CHR 0x0A]"
    by code_simp
  show ?thesis
    using unterminated_last_line_dropped [OF 1 2 3 4, of "Passes 0" None "''px.example''"
        "\<lparr>Auth = \<lparr>Method = ''header'', Enabled = True, ForceAllowApi = False\<rparr>,
          Shell = \<lparr>RewriteAPI = False\<rparr>\<rparr>"]
    unfolding r by simp
qed

text \<open>
  C9. With \<^verbatim>\<open>compress == "gzip"\<close> and an input that does not start with the two magic
  bytes 1F 8B, processLinks returns no error and the output drains to no byte. When the
  \<^verbatim>\<open>return\<close> statement runs before the goroutine starts, or after it has ended, the
  output ends with the error of \<^verbatim>\<open>gzip.NewReader\<close>, wrapped as the decompression error
  (\<^verbatim>\<open>gzip.ErrHeader\<close> when the input has the ten bytes of a header, the error of the
  short read otherwise). When the \<^verbatim>\<open>return\<close> statement runs after the goroutine has
  recorded that error (line 251) and before the deferred function of line 221 reads
  \<^verbatim>\<open>err\<close> (line 223), its \<^verbatim>\<open>nil\<close> replaces the error: the write end is closed by
  \<^verbatim>\<open>Close()\<close>, the output ends as a stream that has ended well, and the decompression
  error is lost. The goroutine writes nothing to the pipe before it closes it, so that
  it reaches each of these moments without the consumer.
\<close>

theorem gzip_bad_magic:
  assumes "take 2 (content input) \<noteq> [CHR 0x1F, CHR 0x8B]"
  shows "processLinks (Passes k) E input ''gzip'' host cfg =
     (([], Some (GzipError
         (if length (content input) < 10
          then (if content input \<noteq> [] \<and> ending input = EOF then ErrUnexpectedEOF
                else ending input)
          else ErrHeader))), 0, None)
   \<and> processLinks AfterClose E input ''gzip'' host cfg =
     (([], Some (GzipError
         (if length (content input) < 10
          then (if content input \<noteq> [] \<and> ending input = EOF then ErrUnexpectedEOF
                else ending input)
          else ErrHeader))), 0, None)
   \<and> processLinks BeforeDeferred E input ''gzip'' host cfg = (([], None), 0, None)
   \<and> processLinks BetweenWriters E input ''gzip'' host cfg = (([], None), 0, None)
   \<and> processLinks AfterWriters E input ''gzip'' host cfg = (([], None), 0, None)
   \<and> processLinks AfterInputClose E input ''gzip'' host cfg = (([], None), 0, None)"
proof -
  have o: "open_reader E input ''gzip'' = Inl (GzipError
         (if length (content input) < 10
          then (if content input \<noteq> [] \<and> ending input = EOF then ErrUnexpectedEOF
                else ending input)
          else ErrHeader))"
    unfolding open_reader_def gzip_NewReader_bad_magic [OF assms] by simp
  show ?thesis
    unfolding processLinks_no_reader [OF o] by simp
qed

theorem gzip_bad_magic_witness:
  "(\<forall>k E cr host cfg.
     processLinks (Passes k) E
       \<lparr>content = ''PK-not a gzip stream'', ending = EOF, close_result = cr\<rparr>
       ''gzip'' host cfg = (([], Some (GzipError ErrHeader)), 0, None))
   \<and> (\<forall>E cr host cfg.
     processLinks BeforeDeferred E
       \<lparr>content = ''PK-not a gzip stream'', ending = EOF, close_result = cr\<rparr>
       ''gzip'' host cfg = (([], None), 0, None))"
proof (intro conjI allI)
  fix k E cr host cfg
  have "take 2 (content \<lparr>content = ''PK-not a gzip stream'', ending = EOF, close_result = cr\<rparr>)
      \<noteq> [CHR 0x1F, CHR 0x8B]" by simp
  from gzip_bad_magic [OF this, of k E host cfg]
  show "processLinks (Passes k) E
       \<lparr>content = ''PK-not a gzip stream'', ending = EOF, close_result = cr\<rparr>
       ''gzip'' host cfg = (([], Some (GzipError ErrHeader)), 0, None)"
    by simp
next
  fix E cr host cfg
  have "take 2 (content \<lparr>content = ''PK-not a gzip stream'', ending = EOF, close_result = cr\<rparr>)
      \<noteq> [CHR 0x1F, CHR 0x8B]" by simp
  from gzip_bad_magic [OF this, of 0 E host cfg]
  show "processLinks BeforeDeferred E
       \<lparr>content = ''PK-not a gzip stream'', ending = EOF, close_result = cr\<rparr>
       ''gzip'' host cfg = (([], None), 0, None)"
    by simp
qed

text \<open>
  The goroutine by itself: the write end is closed with the error recorded in \<^verbatim>\<open>err\<close>.
  An error of \<^verbatim>\<open>gzip.NewReader\<close> is recorded. An error recorded by the loop or by the
  flush after it is still the recorded error after the deferred functions, whatever fails
  in them. When nothing is recorded and closing \<^verbatim>\<open>gzipWriter\<close> fails, that failure is
  logged and recorded, and the flush after it does not replace it. What
  \<^verbatim>\<open>input.Close()\<close> returns changes neither the bytes of the output nor the error that
  ends it; its failure is logged.
\<close>

lemma deferred_functions_keep_error:
  "closed_with (goroutine E input compress host cfg)
     = Some (err (goroutine E input compress host cfg))
   \<and> snd (drain (goroutine E input compress host cfg))
     = err (goroutine E input compress host cfg)
   \<and> (open_reader E input compress = Inl e
       \<longrightarrow> err (goroutine E input compress host cfg) = Some e)
   \<and> (open_reader E input compress = Inr (rest, end)
        \<and> err (body E compress host cfg end rest initial) = Some e
       \<longrightarrow> err (goroutine E input compress host cfg) = Some e)
   \<and> (open_reader E input ''gzip'' = Inr (rest, end)
        \<and> fst (gz_Close E (body E ''gzip'' host cfg end rest initial)) = Some closeErr
       \<longrightarrow> GzipWriterCloseFailed closeErr \<in> set (logs (goroutine E input ''gzip'' host cfg))
           \<and> (err (body E ''gzip'' host cfg end rest initial) = None
                \<longrightarrow> err (goroutine E input ''gzip'' host cfg) = Some closeErr))
   \<and> drain (goroutine E (input\<lparr>close_result := cr\<rparr>) compress host cfg)
       = drain (goroutine E input compress host cfg)
   \<and> (close_result input = Some ce
       \<longrightarrow> InputCloseFailed ce \<in> set (logs (goroutine E input compress host cfg)))"
proof (intro conjI impI)
  show "closed_with (goroutine E input compress host cfg)
      = Some (err (goroutine E input compress host cfg))"
    by (rule goroutine_closed_with)
  show "snd (drain (goroutine E input compress host cfg))
      = err (goroutine E input compress host cfg)"
    by (simp add: drain_def goroutine_closed_with split: option.splits)
  show "err (goroutine E input compress host cfg) = Some e"
    if "open_reader E input compress = Inl e"
    using that by (simp add: goroutine_def)
  show "err (goroutine E input compress host cfg) = Some e"
    if "open_reader E input compress = Inr (rest, end)
        \<and> err (body E compress host cfg end rest initial) = Some e"
    using that by (simp add: goroutine_def deferred_writers_keeps)
  show "GzipWriterCloseFailed closeErr \<in> set (logs (goroutine E input ''gzip'' host cfg))"
    if "open_reader E input ''gzip'' = Inr (rest, end)
        \<and> fst (gz_Close E (body E ''gzip'' host cfg end rest initial)) = Some closeErr"
    using that deferred_writers_close_failure(1) goroutine_logs_writers by blast
  show "err (goroutine E input ''gzip'' host cfg) = Some closeErr"
    if "open_reader E input ''gzip'' = Inr (rest, end)
        \<and> fst (gz_Close E (body E ''gzip'' host cfg end rest initial)) = Some closeErr"
      and "err (body E ''gzip'' host cfg end rest initial) = None"
    using that by (simp add: goroutine_def deferred_writers_close_failure(2))
  show "drain (goroutine E (input\<lparr>close_result := cr\<rparr>) compress host cfg)
       = drain (goroutine E input compress host cfg)"
    by (simp add: drain_def goroutine_closed_with goroutine_close_result)
  show "InputCloseFailed ce \<in> set (logs (goroutine E input compress host cfg))"
    if "close_result input = Some ce"
    using that by (rule goroutine_logs_close)
qed

text \<open>
  C10. A recorded error does not always reach the consumer. The input is the line
  \<^verbatim>\<open>x\<close> with its line feed and a byte \<^verbatim>\<open>y\<close>, after which the read fails; no
  compression. The loop writes the line into the buffer, the next read fails, and the
  goroutine records the read error and returns (lines 300 and 301). Nothing has been
  written to the pipe yet, the line is in the buffer of \<^verbatim>\<open>bufWriter\<close>: the goroutine
  reaches this point without the consumer, before or after the \<^verbatim>\<open>return\<close> statement of
  processLinks.
  \<^item> When the \<^verbatim>\<open>return\<close> statement of processLinks has run before, the output ends with
    the read error, also when the consumer has closed its end and the deferred flush fails.
  \<^item> When the \<^verbatim>\<open>return\<close> statement runs now, before the deferred functions, its
    \<^verbatim>\<open>nil\<close> replaces the recorded error. For a consumer that has closed its end, the
    deferred flush fails, finds no error recorded and records its own (line 288): the
    output ends with the error of the clean-up, not with the read error. For a consumer
    that reads to the end, the output is the line and the end of the stream: the failed
    run ends as a run that went well.
\<close>

theorem recorded_error_overwritten:
  "err (body \<lparr>wanted = Some 0, rclose = ErrClosedPipe, gz_body = gb, gz_emit = ge, gz_final = gf\<rparr>
         '''' host cfg (IOError ''reset'') (''x'' @ [CHR 0x0A] @ ''y'') initial)
     = Some (ReadLineError (IOError ''reset''))
   \<and> delivered (body \<lparr>wanted = None, rclose = ErrClosedPipe, gz_body = gb, gz_emit = ge,
           gz_final = gf\<rparr>
         '''' host cfg (IOError ''reset'') (''x'' @ [CHR 0x0A] @ ''y'') initial) = []
   \<and> buf (body \<lparr>wanted = None, rclose = ErrClosedPipe, gz_body = gb, gz_emit = ge,
           gz_final = gf\<rparr>
         '''' host cfg (IOError ''reset'') (''x'' @ [CHR 0x0A] @ ''y'') initial)
     = ''x'' @ [CHR 0x0A]
   \<and> fst (processLinks (Passes 0)
       \<lparr>wanted = Some 0, rclose = ErrClosedPipe, gz_body = gb, gz_emit = ge, gz_final = gf\<rparr>
       \<lparr>content = ''x'' @ [CHR 0x0A] @ ''y'', ending = IOError ''reset'', close_result = cr\<rparr>
       '''' host cfg)
     = ([], Some (ReadLineError (IOError ''reset'')))
   \<and> fst (processLinks BeforeDeferred
       \<lparr>wanted = Some 0, rclose = ErrClosedPipe, gz_body = gb, gz_emit = ge, gz_final = gf\<rparr>
       \<lparr>content = ''x'' @ [CHR 0x0A] @ ''y'', ending = IOError ''reset'', close_result = cr\<rparr>
       '''' host cfg)
     = ([], Some ErrClosedPipe)
   \<and> fst (processLinks BeforeDeferred
       \<lparr>wanted = None, rclose = ErrClosedPipe, gz_body = gb, gz_emit = ge, gz_final = gf\<rparr>
       \<lparr>content = ''x'' @ [CHR 0x0A] @ ''y'', ending = IOError ''reset'', close_result = cr\<rparr>
       '''' host cfg)
     = (''x'' @ [CHR 0x0A], None)"
  unfolding processLinks_Passes processLinks_BeforeDeferred
  by code_simp

end
